theory Spec2Isabelle
  imports Complex_Main "HOL-Library.Multiset"
begin

section \<open>MCC Market Context API: a shallow embedding of main.py\<close>

text \<open>
  The embedding follows \<^verbatim>\<open>src/main.py\<close>. A Python number is an unbounded \<^verbatim>\<open>int\<close>
  or a \<^verbatim>\<open>float\<close>; a float is an IEEE 754 binary64 value: a finite real that the format
  represents, an infinity, or NaN. Float arithmetic rounds to nearest, ties to even, and
  overflows to an infinity; the conversion of an \<^verbatim>\<open>int\<close> beyond the float range
  raises \<^verbatim>\<open>OverflowError\<close>. The sign of a zero is not modelled: no comparison in the
  source tells the two zeros apart. Every exception the source can raise on its inputs
  is a value of \<open>py_error\<close>, and a function that may raise returns \<open>py_error + 'a\<close>.
\<close>

subsection \<open>Exceptions and sequencing\<close>

datatype py_error =
    IndexError
  | ValueError
  | StatisticsError
  | TypeError
  | AttributeError
  | OverflowError
  | ValidationError

text \<open>Sequencing: an exception raised by the first computation ends the whole
  computation; otherwise its value is passed on.\<close>

definition py_bind :: "py_error + 'a \<Rightarrow> ('a \<Rightarrow> py_error + 'b) \<Rightarrow> py_error + 'b" where
  "py_bind m f = (case m of Inl e \<Rightarrow> Inl e | Inr x \<Rightarrow> f x)"

text \<open>Python's \<^verbatim>\<open>xs[i]\<close>: a negative index counts from the end, and an index
  out of range raises \<^verbatim>\<open>IndexError\<close>.\<close>

definition py_index :: "'a list \<Rightarrow> int \<Rightarrow> py_error + 'a" where
  "py_index xs i =
     (if 0 \<le> i
      then (if nat i < length xs then Inr (xs ! nat i) else Inl IndexError)
      else (if nat (- i) \<le> length xs then Inr (xs ! (length xs - nat (- i)))
            else Inl IndexError))"

subsection \<open>Rounding to binary64\<close>

text \<open>Rounding a real to the nearest integer, ties to the even one; the binade of a
  real (the exponent of its leading bit, not below that of the smallest normal number);
  the spacing of the doubles in that binade (53 significant bits); and the nearest
  double of a real, by magnitude and sign. A real of magnitude \<open>overflow_at\<close> or more,
  half a spacing above the largest double, rounds to an infinity.\<close>

definition round_half_even :: "real \<Rightarrow> int" where
  "round_half_even t =
     (let f = \<lfloor>t\<rfloor>; d = t - of_int f
      in if d < 1 / 2 then f else if 1 / 2 < d then f + 1 else if even f then f else f + 1)"

definition binade :: "real \<Rightarrow> int" where
  "binade x = (if x = 0 then - 1022 else max \<lfloor>log 2 \<bar>x\<bar>\<rfloor> (- 1022))"

definition ulp :: "real \<Rightarrow> real" where
  "ulp x = 2 powr of_int (binade x - 52)"

definition round_magnitude :: "real \<Rightarrow> real" where
  "round_magnitude x = of_int (round_half_even (x / ulp x)) * ulp x"

definition round_double :: "real \<Rightarrow> real" where
  "round_double x = (if x < 0 then - round_magnitude (- x) else round_magnitude x)"

definition overflow_at :: real where
  "overflow_at = 2 ^ 1024 - 2 ^ 970"

subsection \<open>Python numbers\<close>

datatype pyfloat = Fin real | PosInf | NegInf | NaN

datatype pynum = PInt int | PFl pyfloat

text \<open>The result of a float operation whose exact value is \<open>x\<close>, and a float literal
  of the source text such as \<^verbatim>\<open>0.98\<close>.\<close>

definition fl_round :: "real \<Rightarrow> pyfloat" where
  "fl_round x =
     (if overflow_at \<le> x then PosInf
      else if x \<le> - overflow_at then NegInf
      else Fin (round_double x))"

definition float_lit :: "real \<Rightarrow> pyfloat" where
  "float_lit x = fl_round x"

text \<open>\<^verbatim>\<open>float(x)\<close> on a number, which is also the conversion of an \<^verbatim>\<open>int\<close> operand
  that meets a float operand: an \<^verbatim>\<open>int\<close> is rounded, or raises \<^verbatim>\<open>OverflowError\<close>
  when it is too large; a float is returned as it is.\<close>

fun to_float :: "pynum \<Rightarrow> py_error + pyfloat" where
  "to_float (PInt n) =
     (if overflow_at \<le> \<bar>of_int n\<bar> then Inl OverflowError
      else Inr (Fin (round_double (of_int n))))"
| "to_float (PFl f) = Inr f"

text \<open>Float addition, multiplication and division by \<^verbatim>\<open>2\<close>.\<close>

fun float_add :: "pyfloat \<Rightarrow> pyfloat \<Rightarrow> pyfloat" where
  "float_add (Fin x) (Fin y) = fl_round (x + y)"
| "float_add NaN b = NaN"
| "float_add a NaN = NaN"
| "float_add PosInf NegInf = NaN"
| "float_add NegInf PosInf = NaN"
| "float_add PosInf b = PosInf"
| "float_add a PosInf = PosInf"
| "float_add NegInf b = NegInf"
| "float_add a NegInf = NegInf"

fun float_sign :: "pyfloat \<Rightarrow> int" where
  "float_sign (Fin x) = (if x < 0 then - 1 else if x = 0 then 0 else 1)"
| "float_sign PosInf = 1"
| "float_sign NegInf = - 1"
| "float_sign NaN = 0"

fun float_mul :: "pyfloat \<Rightarrow> pyfloat \<Rightarrow> pyfloat" where
  "float_mul (Fin x) (Fin y) = fl_round (x * y)"
| "float_mul NaN b = NaN"
| "float_mul a NaN = NaN"
| "float_mul a b =
     (if float_sign a * float_sign b = 0 then NaN
      else if 0 < float_sign a * float_sign b then PosInf else NegInf)"

fun float_div2 :: "pyfloat \<Rightarrow> pyfloat" where
  "float_div2 (Fin x) = fl_round (x / 2)"
| "float_div2 f = f"

text \<open>The operators of the source on numbers. \<^verbatim>\<open>a + b\<close>: exact on two ints, otherwise
  a float addition after conversion. \<^verbatim>\<open>x / 2\<close>: true division; on an \<^verbatim>\<open>int\<close> the
  quotient is rounded once, and \<^verbatim>\<open>OverflowError\<close> is raised when it is too large for a
  float. \<^verbatim>\<open>x * c\<close> for a float literal \<open>c\<close>.\<close>

fun py_add :: "pynum \<Rightarrow> pynum \<Rightarrow> py_error + pynum" where
  "py_add (PInt m) (PInt n) = Inr (PInt (m + n))"
| "py_add a b =
     py_bind (to_float a) (\<lambda>x. py_bind (to_float b) (\<lambda>y. Inr (PFl (float_add x y))))"

fun py_div2 :: "pynum \<Rightarrow> py_error + pyfloat" where
  "py_div2 (PInt n) =
     (if overflow_at \<le> \<bar>of_int n / 2\<bar> then Inl OverflowError
      else Inr (Fin (round_double (of_int n / 2))))"
| "py_div2 (PFl f) = Inr (float_div2 f)"

definition py_mul :: "pynum \<Rightarrow> pyfloat \<Rightarrow> py_error + pyfloat" where
  "py_mul x c = py_bind (to_float x) (\<lambda>f. Inr (float_mul f c))"

text \<open>Comparison. Floats are ordered as the extended reals, and every comparison
  with NaN is false; an \<^verbatim>\<open>int\<close> and a float are compared by their exact values.\<close>

fun float_rank :: "pyfloat \<Rightarrow> nat" where
  "float_rank NegInf = 0"
| "float_rank (Fin x) = 1"
| "float_rank PosInf = 2"
| "float_rank NaN = 3"

fun float_mag :: "pyfloat \<Rightarrow> real" where
  "float_mag (Fin x) = x"
| "float_mag f = 0"

definition float_lt :: "pyfloat \<Rightarrow> pyfloat \<Rightarrow> bool" where
  "float_lt a b =
     (a \<noteq> NaN \<and> b \<noteq> NaN
      \<and> (float_rank a < float_rank b
         \<or> (float_rank a = float_rank b \<and> float_mag a < float_mag b)))"

definition float_le :: "pyfloat \<Rightarrow> pyfloat \<Rightarrow> bool" where
  "float_le a b =
     (a \<noteq> NaN \<and> b \<noteq> NaN
      \<and> (float_rank a < float_rank b
         \<or> (float_rank a = float_rank b \<and> float_mag a \<le> float_mag b)))"

fun exact :: "pynum \<Rightarrow> pyfloat" where
  "exact (PInt n) = Fin (of_int n)"
| "exact (PFl f) = f"

definition py_lt :: "pynum \<Rightarrow> pynum \<Rightarrow> bool" where
  "py_lt a b = float_lt (exact a) (exact b)"

definition py_le :: "pynum \<Rightarrow> pynum \<Rightarrow> bool" where
  "py_le a b = float_le (exact a) (exact b)"

definition is_nan :: "pynum \<Rightarrow> bool" where
  "is_nan a = (a = PFl NaN)"

text \<open>The builtin \<^verbatim>\<open>max\<close> on an iterable: \<^verbatim>\<open>ValueError\<close> on an empty one,
  otherwise the first item is the candidate and a later item replaces it only when
  it is strictly greater. \<^verbatim>\<open>min\<close> is the mirror image.\<close>

fun max_loop :: "pynum \<Rightarrow> pynum list \<Rightarrow> pynum" where
  "max_loop max_item [] = max_item"
| "max_loop max_item (item # rest) =
     max_loop (if py_lt max_item item then item else max_item) rest"

fun min_loop :: "pynum \<Rightarrow> pynum list \<Rightarrow> pynum" where
  "min_loop min_item [] = min_item"
| "min_loop min_item (item # rest) =
     min_loop (if py_lt item min_item then item else min_item) rest"

definition py_max :: "pynum list \<Rightarrow> py_error + pynum" where
  "py_max xs = (case xs of [] \<Rightarrow> Inl ValueError | x # rest \<Rightarrow> Inr (max_loop x rest))"

definition py_min :: "pynum list \<Rightarrow> py_error + pynum" where
  "py_min xs = (case xs of [] \<Rightarrow> Inl ValueError | x # rest \<Rightarrow> Inr (min_loop x rest))"

text \<open>The builtin \<^verbatim>\<open>sorted\<close>. On numbers without NaN the order is total and the
  result is the stable sort: every item is put before the first item that is not less
  than it, from the last item of the input to the first. With a NaN among the items
  the comparisons are not an order, and the result is whatever the sorting algorithm of
  the interpreter makes of them: the argument \<open>nan_sorted\<close> stands for it.\<close>

fun insort_py :: "pynum \<Rightarrow> pynum list \<Rightarrow> pynum list" where
  "insort_py x [] = [x]"
| "insort_py x (y # ys) = (if py_lt y x then y # insort_py x ys else x # y # ys)"

definition py_sorted :: "(pynum list \<Rightarrow> pynum list) \<Rightarrow> pynum list \<Rightarrow> pynum list" where
  "py_sorted nan_sorted xs =
     (if list_ex is_nan xs then nan_sorted xs else foldr insort_py xs [])"

text \<open>\<^verbatim>\<open>statistics.median\<close>: sort the data; no data raises \<^verbatim>\<open>StatisticsError\<close>;
  an odd count gives the middle item, an even count \<^verbatim>\<open>(data[i - 1] + data[i]) / 2\<close>
  for the two middle items.\<close>

definition median :: "(pynum list \<Rightarrow> pynum list) \<Rightarrow> pynum list \<Rightarrow> py_error + pynum" where
  "median nan_sorted data =
     (let d = py_sorted nan_sorted data; n = length d
      in if n = 0 then Inl StatisticsError
         else if n mod 2 = 1 then Inr (d ! (n div 2))
         else (let i = n div 2
               in py_bind (py_add (d ! (i - 1)) (d ! i)) (\<lambda>s.
                  py_bind (py_div2 s) (\<lambda>m. Inr (PFl m)))))"

text \<open>The substring test \<^verbatim>\<open>sub in s\<close> on strings.\<close>

fun starts_with :: "string \<Rightarrow> string \<Rightarrow> bool" where
  "starts_with [] s = True"
| "starts_with (p # ps) [] = False"
| "starts_with (p # ps) (c # cs) = (p = c \<and> starts_with ps cs)"

fun str_in :: "string \<Rightarrow> string \<Rightarrow> bool" where
  "str_in sub [] = (sub = [])"
| "str_in sub (c # cs) = (starts_with sub (c # cs) \<or> str_in sub cs)"

subsection \<open>Data model\<close>

text \<open>A candle is the list \<^verbatim>\<open>[timestamp, open, high, low, close, volume]\<close> of
  numbers the exchange client returns; the source reads it by position, so a list that
  is too short raises \<^verbatim>\<open>IndexError\<close>. The pydantic models are records; the fields
  \<^verbatim>\<open>type\<close>, \<^verbatim>\<open>from_\<close>, \<^verbatim>\<open>to\<close>, \<^verbatim>\<open>state\<close> and \<^verbatim>\<open>price\<close> occur in several
  models and carry the model's prefix here. A field declared \<^verbatim>\<open>float\<close> holds a
  float.\<close>

type_synonym candle = "pynum list"

record ObZone =
  ob_type :: string
  ob_from :: pyfloat
  ob_to :: pyfloat
  ob_state :: string

record FvgZone =
  fvg_from :: pyfloat
  fvg_to :: pyfloat
  fvg_state :: string

record LiquidityLevel =
  liq_type :: string
  liq_price :: pyfloat

record CoinglassCluster =
  side :: string
  price :: pyfloat
  size_usd :: pyfloat

record TimeframeContext =
  bias :: "string option"
  trend :: "string option"
  bos :: "string option"
  swing_high :: "pyfloat option"
  swing_low :: "pyfloat option"
  midline_50 :: "pyfloat option"
  ob_zones :: "ObZone list"
  fvg_zones :: "FvgZone list"
  micro_liquidity :: "LiquidityLevel list"
  current_price :: "pyfloat option"

record CoinglassLevels =
  N1 :: "CoinglassCluster list"
  N2 :: "CoinglassCluster list"
  N3 :: "CoinglassCluster list"

record CoinglassData =
  heatmap :: CoinglassLevels
  liquidations :: CoinglassLevels

text \<open>A \<^verbatim>\<open>TimeframeContext\<close> built with keyword arguments: every field not given
  takes its declared default.\<close>

definition TimeframeContext_default :: TimeframeContext where
  "TimeframeContext_default =
     \<lparr>bias = None, trend = None, bos = None, swing_high = None, swing_low = None,
      midline_50 = None, ob_zones = [], fvg_zones = [], micro_liquidity = [],
      current_price = None\<rparr>"

definition CoinglassLevels_default :: CoinglassLevels where
  "CoinglassLevels_default = \<lparr>N1 = [], N2 = [], N3 = []\<rparr>"

text \<open>What pydantic does with a number given for a field declared \<^verbatim>\<open>float\<close>: a
  float is kept (infinities and NaN are allowed by default), an \<^verbatim>\<open>int\<close> is converted,
  and an \<^verbatim>\<open>int\<close> beyond the float range makes the construction of the model
  raise. Which exception it is depends on the version of pydantic; the embedding calls
  it \<^verbatim>\<open>ValidationError\<close>, and no property below depends on the name.\<close>

definition coerce_float :: "pynum \<Rightarrow> py_error + pyfloat" where
  "coerce_float x = (case to_float x of Inl e \<Rightarrow> Inl ValidationError | Inr f \<Rightarrow> Inr f)"

subsection \<open>The structure detector\<close>

text \<open>In the detector below, the four products of \<^verbatim>\<open>latest_price\<close> are computed
  once each, in the order the source first meets them; the source computes two of them
  a second time for the 15-minute context, with the same operands. The products of
  \<^verbatim>\<open>midline\<close>, a float, cannot raise.\<close>

text \<open>The generator \<^verbatim>\<open>c[k] for c in candles\<close>, consumed to its end by \<^verbatim>\<open>max\<close>,
  \<^verbatim>\<open>min\<close> or a list comprehension: the items in order, or the \<^verbatim>\<open>IndexError\<close> of
  the first candle that has no position \<open>k\<close>.\<close>

fun fields :: "int \<Rightarrow> candle list \<Rightarrow> py_error + pynum list" where
  "fields k [] = Inr []"
| "fields k (c # cs) =
     py_bind (py_index c k) (\<lambda>v. py_bind (fields k cs) (\<lambda>vs. Inr (v # vs)))"

definition bos_of :: "string \<Rightarrow> string" where
  "bos_of trend_val = (if str_in ''bullish'' trend_val then ''up'' else ''down'')"

definition detect_structure_and_liquidity ::
  "(pynum list \<Rightarrow> pynum list) \<Rightarrow> candle list \<Rightarrow> candle list \<Rightarrow> candle list \<Rightarrow> candle list
     \<Rightarrow> py_error + (string \<rightharpoonup> TimeframeContext)" where
  "detect_structure_and_liquidity nan_sorted ohlcv_1d ohlcv_4h ohlcv_1h ohlcv_15m =
     py_bind (py_index ohlcv_15m (- 1)) (\<lambda>last_15m.
     py_bind (py_index last_15m 4) (\<lambda>latest_price.
     py_bind (fields 2 ohlcv_1d) (\<lambda>highs.
     py_bind (py_max highs) (\<lambda>swing_high_v.
     py_bind (fields 3 ohlcv_1d) (\<lambda>lows.
     py_bind (py_min lows) (\<lambda>swing_low_v.
     py_bind (py_add swing_high_v swing_low_v) (\<lambda>swing_sum.
     py_bind (py_div2 swing_sum) (\<lambda>midline.
     py_bind (fields 4 ohlcv_4h) (\<lambda>closes.
     py_bind (median nan_sorted closes) (\<lambda>median_4h.
      let trend_val = (if py_lt median_4h latest_price
                       then ''bullish_HH_HL'' else ''bearish_LH_LL'');
          bias_v = (if py_lt latest_price (PFl midline)
                    then ''discount_LONG'' else ''premium_SHORT'')
      in
     py_bind (coerce_float swing_high_v) (\<lambda>swing_high_f.
     py_bind (coerce_float swing_low_v) (\<lambda>swing_low_f.
     py_bind (coerce_float latest_price) (\<lambda>current_price_f.
     py_bind (py_mul latest_price (float_lit 0.995)) (\<lambda>price_0995.
     py_bind (py_mul latest_price (float_lit 1.005)) (\<lambda>price_1005.
     py_bind (py_mul latest_price (float_lit 1.002)) (\<lambda>price_1002.
     py_bind (py_mul latest_price (float_lit 1.004)) (\<lambda>price_1004.
      let tf_1d = TimeframeContext_default
            \<lparr>bias := Some bias_v, trend := Some trend_val, bos := Some (bos_of trend_val),
             swing_high := Some swing_high_f, swing_low := Some swing_low_f,
             midline_50 := Some midline, current_price := Some current_price_f\<rparr>;
          tf_4h = TimeframeContext_default
            \<lparr>bos := Some (bos_of trend_val),
             ob_zones := [\<lparr>ob_type = ''bullish'',
                           ob_from = float_mul midline (float_lit 0.98),
                           ob_to = float_mul midline (float_lit 1.02),
                           ob_state = ''decisional''\<rparr>],
             fvg_zones := [\<lparr>fvg_from = float_mul midline (float_lit 1.01),
                            fvg_to = float_mul midline (float_lit 1.02),
                            fvg_state = ''active''\<rparr>]\<rparr>;
          tf_1h = TimeframeContext_default
            \<lparr>bos := Some (bos_of trend_val),
             ob_zones := [\<lparr>ob_type = ''bullish'', ob_from = price_0995,
                           ob_to = price_1005, ob_state = ''fresh''\<rparr>],
             fvg_zones := [\<lparr>fvg_from = price_1002, fvg_to = price_1004,
                            fvg_state = ''valid''\<rparr>]\<rparr>;
          tf_15m = TimeframeContext_default
            \<lparr>current_price := Some current_price_f, bos := Some (bos_of trend_val),
             micro_liquidity := [\<lparr>liq_type = ''EQH'', liq_price = price_1005\<rparr>,
                                 \<lparr>liq_type = ''EQL'', liq_price = price_0995\<rparr>]\<rparr>
      in Inr [''1D'' \<mapsto> tf_1d, ''4H'' \<mapsto> tf_4h, ''1H'' \<mapsto> tf_1h,
              ''15m'' \<mapsto> tf_15m])))))))))))))))))"

subsection \<open>The heatmap cluster fetcher\<close>

text \<open>A decoded JSON document, as \<^verbatim>\<open>r.json()\<close> returns it: \<^verbatim>\<open>None\<close>, a bool, a
  number (an \<^verbatim>\<open>int\<close> for an integer literal of any size, a float otherwise), a
  string, a list, or a dict (an association list read with \<open>map_of\<close>).\<close>

datatype json =
    JNull
  | JBool bool
  | JNum pynum
  | JStr string
  | JArr "json list"
  | JObj "(string \<times> json) list"

text \<open>What \<^verbatim>\<open>await client.get(url, headers=headers)\<close> does: it raises, or it gives a
  response with a status code whose \<^verbatim>\<open>json()\<close> either raises (\<open>None\<close>) or decodes the
  body. The client is an argument of the model: a function from the URL to the outcome.
  The headers are the same on every call.\<close>

datatype http_result =
    Raised
  | Response int "json option"

text \<open>\<^verbatim>\<open>d.get(key, default)\<close> on a dict.\<close>

definition dict_get :: "(string \<times> json) list \<Rightarrow> string \<Rightarrow> json \<Rightarrow> json" where
  "dict_get d k dflt = (case map_of d k of None \<Rightarrow> dflt | Some v \<Rightarrow> v)"

text \<open>Truth value of an object in \<^verbatim>\<open>if data:\<close>.\<close>

fun truthy :: "json \<Rightarrow> bool" where
  "truthy JNull = False"
| "truthy (JBool b) = b"
| "truthy (JNum (PInt n)) = (n \<noteq> 0)"
| "truthy (JNum (PFl (Fin x))) = (x \<noteq> 0)"
| "truthy (JNum (PFl f)) = True"
| "truthy (JStr s) = (s \<noteq> [])"
| "truthy (JArr xs) = (xs \<noteq> [])"
| "truthy (JObj d) = (d \<noteq> [])"

text \<open>\<^verbatim>\<open>data[:3]\<close> followed by iteration: a list gives its first three items, a string
  its first three characters (each a string of length one); any other object cannot be
  sliced, and the exception is raised outside every \<^verbatim>\<open>try\<close> of the source.\<close>

fun slice3 :: "json \<Rightarrow> py_error + json list" where
  "slice3 (JArr xs) = Inr (take 3 xs)"
| "slice3 (JStr s) = Inr (map (\<lambda>c. JStr [c]) (take 3 s))"
| "slice3 j = Inl TypeError"

text \<open>The builtin \<^verbatim>\<open>float(x)\<close> on a decoded value. A number converts as above, so an
  \<^verbatim>\<open>int\<close> beyond the float range raises \<^verbatim>\<open>OverflowError\<close>; a bool converts to 1 or
  0; a string is parsed, and Python's parser of float literals is the argument
  \<open>float_str\<close> (\<open>None\<close>: not a float literal, \<^verbatim>\<open>ValueError\<close>); \<^verbatim>\<open>None\<close>, a list and a
  dict raise \<^verbatim>\<open>TypeError\<close>.\<close>

fun py_float :: "(string \<Rightarrow> pyfloat option) \<Rightarrow> json \<Rightarrow> py_error + pyfloat" where
  "py_float float_str (JNum x) = to_float x"
| "py_float float_str (JBool b) = Inr (Fin (if b then 1 else 0))"
| "py_float float_str (JStr s) =
     (case float_str s of None \<Rightarrow> Inl ValueError | Some x \<Rightarrow> Inr x)"
| "py_float float_str j = Inl TypeError"

text \<open>The body of the inner \<^verbatim>\<open>try\<close>: the construction of one cluster from the entry
  \<open>i\<close>. Only a dict has \<^verbatim>\<open>get\<close>; the keyword arguments are evaluated in the order
  side, price, size_usd; the default of a missing price or size is the \<^verbatim>\<open>int\<close> 0.\<close>

fun make_cluster :: "(string \<Rightarrow> pyfloat option) \<Rightarrow> json \<Rightarrow> py_error + CoinglassCluster" where
  "make_cluster float_str (JObj d) =
     (let side_v = (if map_of d ''side'' = Some (JStr ''short'') then ''short'' else ''long'') in
      py_bind (py_float float_str (dict_get d ''price'' (JNum (PInt 0)))) (\<lambda>price_v.
      py_bind (py_float float_str (dict_get d ''size'' (JNum (PInt 0)))) (\<lambda>size_v.
      Inr \<lparr>side = side_v, price = price_v, size_usd = size_v\<rparr>)))"
| "make_cluster float_str j = Inl AttributeError"

text \<open>The \<^verbatim>\<open>for\<close> loop: an entry whose construction raises is passed over
  (\<^verbatim>\<open>except: pass\<close>), any other is appended to \<open>clusters\<close>.\<close>

fun cluster_loop ::
  "(string \<Rightarrow> pyfloat option) \<Rightarrow> json list \<Rightarrow> CoinglassCluster list \<Rightarrow> CoinglassCluster list" where
  "cluster_loop float_str [] clusters = clusters"
| "cluster_loop float_str (i # rest) clusters =
     (case make_cluster float_str i of
        Inl e \<Rightarrow> cluster_loop float_str rest clusters
      | Inr c \<Rightarrow> cluster_loop float_str rest (clusters @ [c]))"

text \<open>\<^verbatim>\<open>str.upper\<close> on ASCII letters, and the symbol as the service wants it:
  \<^verbatim>\<open>symbol.replace("/", "").upper()\<close>.\<close>

definition upper_char :: "char \<Rightarrow> char" where
  "upper_char c =
     (let n = (of_char c :: nat) in if 97 \<le> n \<and> n \<le> 122 then char_of (n - 32) else c)"

definition symbol_cg_of :: "string \<Rightarrow> string" where
  "symbol_cg_of symbol = map upper_char (filter (\<lambda>c. c \<noteq> CHR ''/'') symbol)"

definition heatmap_url :: "string \<Rightarrow> string" where
  "heatmap_url symbol =
     ''https://open-api.coinglass.com/api/pro/v1'' @ ''/futures/liquidation_heatmap?symbol=''
       @ symbol_cg_of symbol"

text \<open>The first \<^verbatim>\<open>try\<close>: every exception of the call and of the decoding, and every
  status other than 200, leaves \<open>data\<close> the empty list. The body is decoded only when
  the status is 200, and \<^verbatim>\<open>get\<close> exists only on a dict.\<close>

definition heatmap_data :: "http_result \<Rightarrow> json" where
  "heatmap_data r =
     (case r of
        Raised \<Rightarrow> JArr []
      | Response status_code body \<Rightarrow>
          (if status_code = 200
           then (case body of
                   None \<Rightarrow> JArr []
                 | Some (JObj d) \<Rightarrow> dict_get d ''data'' (JArr [])
                 | Some j \<Rightarrow> JArr [])
           else JArr []))"

definition fetch_coinglass_clusters ::
  "(string \<Rightarrow> pyfloat option) \<Rightarrow> (string \<Rightarrow> http_result) \<Rightarrow> string
     \<Rightarrow> py_error + CoinglassData" where
  "fetch_coinglass_clusters float_str client_get symbol =
     (let data = heatmap_data (client_get (heatmap_url symbol)) in
      py_bind (if truthy data
               then py_bind (slice3 data) (\<lambda>items. Inr (cluster_loop float_str items []))
               else Inr [])
        (\<lambda>clusters.
           Inr \<lparr>heatmap = CoinglassLevels_default\<lparr>N3 := clusters\<rparr>,
                liquidations = CoinglassLevels_default\<lparr>N3 := []\<rparr>\<rparr>))"

subsection \<open>The session classifier\<close>

text \<open>\<^verbatim>\<open>detect_session\<close> reads the clock; the model takes the hour
  \<^verbatim>\<open>datetime.datetime.utcnow().hour\<close> as its argument.\<close>

definition detect_session :: "int \<Rightarrow> string" where
  "detect_session h =
     (if 12 \<le> h \<and> h < 20 then ''NY'' else if 7 \<le> h \<and> h < 12 then ''LDN'' else ''ASIA'')"

section \<open>Notions of the specification and concrete inputs\<close>

text \<open>A float that rounding leaves as it is, and a float that is a value of the format:
  a finite one is a double below the overflow threshold.\<close>

fun float_fixed :: "pyfloat \<Rightarrow> bool" where
  "float_fixed (Fin x) = (round_double x = x)"
| "float_fixed f = True"

fun valid_float :: "pyfloat \<Rightarrow> bool" where
  "valid_float (Fin x) = (round_double x = x \<and> \<bar>x\<bar> < overflow_at)"
| "valid_float f = True"

text \<open>A number as the exchange client can deliver it: any \<^verbatim>\<open>int\<close>, or a float of the
  format.\<close>

fun valid_num :: "pynum \<Rightarrow> bool" where
  "valid_num (PInt n) = True"
| "valid_num (PFl f) = valid_float f"

text \<open>A well-formed candle: six numbers, and its low is not above its high. The
  comparison is Python's, so neither of the two is NaN.\<close>

definition well_formed :: "candle \<Rightarrow> bool" where
  "well_formed c = (length c = 6 \<and> list_all valid_num c \<and> py_le (c ! 3) (c ! 2))"

text \<open>A finite float; a number that is a finite float; a candle whose high, low and
  close are finite floats, as the exchange client returns them.\<close>

fun is_finite :: "pyfloat \<Rightarrow> bool" where
  "is_finite (Fin x) = True"
| "is_finite f = False"

fun finite_float :: "pynum \<Rightarrow> bool" where
  "finite_float (PFl (Fin x)) = True"
| "finite_float a = False"

definition float_prices :: "candle \<Rightarrow> bool" where
  "float_prices c =
     (length c = 6 \<and> finite_float (c ! 2) \<and> finite_float (c ! 3) \<and> finite_float (c ! 4))"

text \<open>An integral value presented as an \<^verbatim>\<open>int\<close> or as a float, and the identity in
  place of the sorting of data that holds NaN, for the runs on concrete inputs.\<close>

definition py_number :: "bool \<Rightarrow> int \<Rightarrow> pynum" where
  "py_number as_int n = (if as_int then PInt n else PFl (Fin (of_int n)))"

definition keep_order :: "pynum list \<Rightarrow> pynum list" where
  "keep_order xs = xs"

text \<open>The inputs of the end-to-end scenario: daily highs 100, 110, 105 and lows 90,
  95, 92; 4-hour closes 98, 102, 99, 101; last 15-minute close 97. Then a 15-minute
  series whose last close is 100, the midline and the median of the scenario; 4-hour
  closes 98, 102, 140, 98, whose median 100 differs from their mean 109.5; a 15-minute
  series whose last close is 105; and a daily candle whose high and low are the float
  \<open>2 ^ 1023\<close>.\<close>

definition scenario_1d :: "candle list" where
  "scenario_1d =
     [[PInt 1, PFl (Fin 95), PFl (Fin 100), PFl (Fin 90), PFl (Fin 98), PFl (Fin 10)],
      [PInt 2, PFl (Fin 98), PFl (Fin 110), PFl (Fin 95), PFl (Fin 104), PFl (Fin 12)],
      [PInt 3, PFl (Fin 104), PFl (Fin 105), PFl (Fin 92), PFl (Fin 97), PFl (Fin 11)]]"

definition scenario_4h :: "candle list" where
  "scenario_4h =
     [[PInt 1, PFl (Fin 97), PFl (Fin 99), PFl (Fin 96), PFl (Fin 98), PFl (Fin 4)],
      [PInt 2, PFl (Fin 98), PFl (Fin 103), PFl (Fin 98), PFl (Fin 102), PFl (Fin 5)],
      [PInt 3, PFl (Fin 102), PFl (Fin 102), PFl (Fin 98), PFl (Fin 99), PFl (Fin 3)],
      [PInt 4, PFl (Fin 99), PFl (Fin 101), PFl (Fin 97), PFl (Fin 101), PFl (Fin 4)]]"

definition scenario_1h :: "candle list" where
  "scenario_1h = [[PInt 1, PFl (Fin 99), PFl (Fin 101), PFl (Fin 97), PFl (Fin 98), PFl (Fin 2)]]"

definition scenario_15m :: "candle list" where
  "scenario_15m =
     [[PInt 1, PFl (Fin 99), PFl (Fin 100), PFl (Fin 98), PFl (Fin 98), PFl (Fin 1)],
      [PInt 2, PFl (Fin 98), PFl (Fin 98), PFl (Fin 96), PFl (Fin 97), PFl (Fin 1)]]"

definition tie_15m :: "candle list" where
  "tie_15m = [[PInt 1, PFl (Fin 99), PFl (Fin 101), PFl (Fin 99), PFl (Fin 100), PFl (Fin 1)]]"

definition skewed_4h :: "candle list" where
  "skewed_4h =
     [[PInt 1, PFl (Fin 97), PFl (Fin 99), PFl (Fin 96), PFl (Fin 98), PFl (Fin 4)],
      [PInt 2, PFl (Fin 98), PFl (Fin 103), PFl (Fin 98), PFl (Fin 102), PFl (Fin 5)],
      [PInt 3, PFl (Fin 102), PFl (Fin 141), PFl (Fin 98), PFl (Fin 140), PFl (Fin 3)],
      [PInt 4, PFl (Fin 140), PFl (Fin 140), PFl (Fin 97), PFl (Fin 98), PFl (Fin 4)]]"

definition above_15m :: "candle list" where
  "above_15m = [[PInt 1, PFl (Fin 99), PFl (Fin 106), PFl (Fin 99), PFl (Fin 105), PFl (Fin 1)]]"

definition overflow_1d :: "candle list" where
  "overflow_1d =
     [[PInt 1, PFl (Fin (2 ^ 1023)), PFl (Fin (2 ^ 1023)), PFl (Fin (2 ^ 1023)),
       PFl (Fin (2 ^ 1023)), PFl (Fin 1)]]"

text \<open>The value of a field is a JSON number; it is a number that \<^verbatim>\<open>float\<close> converts;
  and the float it is converted to.\<close>

fun is_number :: "json option \<Rightarrow> bool" where
  "is_number (Some (JNum x)) = True"
| "is_number j = False"

fun in_float_range :: "json option \<Rightarrow> bool" where
  "in_float_range (Some (JNum (PInt n))) = (\<bar>of_int n\<bar> < overflow_at)"
| "in_float_range (Some (JNum (PFl f))) = True"
| "in_float_range j = False"

fun number_float :: "json option \<Rightarrow> pyfloat" where
  "number_float (Some (JNum (PInt n))) = Fin (round_double (of_int n))"
| "number_float (Some (JNum (PFl f))) = f"
| "number_float j = Fin 0"

text \<open>A valid heatmap entry: an object whose side is \<^verbatim>\<open>long\<close> or \<^verbatim>\<open>short\<close> and
  whose price and size are numbers. A convertible entry is a valid one whose price and
  size are within the float range. The cluster a valid entry stands for.\<close>

fun valid_entry :: "json \<Rightarrow> bool" where
  "valid_entry (JObj d) =
     ((map_of d ''side'' = Some (JStr ''long'') \<or> map_of d ''side'' = Some (JStr ''short''))
      \<and> is_number (map_of d ''price'') \<and> is_number (map_of d ''size''))"
| "valid_entry j = False"

fun convertible_entry :: "json \<Rightarrow> bool" where
  "convertible_entry (JObj d) =
     (valid_entry (JObj d) \<and> in_float_range (map_of d ''price'')
      \<and> in_float_range (map_of d ''size''))"
| "convertible_entry j = False"

fun cluster_of_valid_entry :: "json \<Rightarrow> CoinglassCluster" where
  "cluster_of_valid_entry (JObj d) =
     \<lparr>side = (case map_of d ''side'' of Some (JStr s) \<Rightarrow> s | _ \<Rightarrow> []),
      price = number_float (map_of d ''price''),
      size_usd = number_float (map_of d ''size'')\<rparr>"
| "cluster_of_valid_entry j = \<lparr>side = [], price = Fin 0, size_usd = Fin 0\<rparr>"

text \<open>The values \<^verbatim>\<open>float\<close> accepts, and what it makes of them: a float, an
  \<^verbatim>\<open>int\<close> within the float range, a bool, a string that is a float literal.\<close>

fun float_ok :: "(string \<Rightarrow> pyfloat option) \<Rightarrow> json \<Rightarrow> bool" where
  "float_ok float_str (JNum (PInt n)) = (\<bar>of_int n\<bar> < overflow_at)"
| "float_ok float_str (JNum (PFl f)) = True"
| "float_ok float_str (JBool b) = True"
| "float_ok float_str (JStr s) = (float_str s \<noteq> None)"
| "float_ok float_str j = False"

fun float_val :: "(string \<Rightarrow> pyfloat option) \<Rightarrow> json \<Rightarrow> pyfloat" where
  "float_val float_str (JNum (PInt n)) = Fin (round_double (of_int n))"
| "float_val float_str (JNum (PFl f)) = f"
| "float_val float_str (JBool b) = Fin (if b then 1 else 0)"
| "float_val float_str (JStr s) = (case float_str s of Some x \<Rightarrow> x | None \<Rightarrow> Fin 0)"
| "float_val float_str j = Fin 0"

text \<open>An entry is skipped when it is not an object, or when \<^verbatim>\<open>float\<close> rejects its
  price or its size, a missing one counting as the \<^verbatim>\<open>int\<close> 0. The cluster of an entry
  that is not skipped.\<close>

fun skipped :: "(string \<Rightarrow> pyfloat option) \<Rightarrow> json \<Rightarrow> bool" where
  "skipped float_str (JObj d) =
     (\<not> float_ok float_str (dict_get d ''price'' (JNum (PInt 0)))
      \<or> \<not> float_ok float_str (dict_get d ''size'' (JNum (PInt 0))))"
| "skipped float_str j = True"

fun entry_cluster :: "(string \<Rightarrow> pyfloat option) \<Rightarrow> json \<Rightarrow> CoinglassCluster" where
  "entry_cluster float_str (JObj d) =
     \<lparr>side = (if map_of d ''side'' = Some (JStr ''short'') then ''short'' else ''long''),
      price = float_val float_str (dict_get d ''price'' (JNum (PInt 0))),
      size_usd = float_val float_str (dict_get d ''size'' (JNum (PInt 0)))\<rparr>"
| "entry_cluster float_str j = \<lparr>side = ''long'', price = Fin 0, size_usd = Fin 0\<rparr>"

text \<open>A parser that takes no string for a float literal; three lists of entries; and
  two services: one answers 200 with the entries as \<^verbatim>\<open>data\<close>, the other answers
  500.\<close>

definition no_float :: "string \<Rightarrow> pyfloat option" where
  "no_float s = None"

definition mixed_entries :: "json list" where
  "mixed_entries =
     [JObj [(''side'', JStr ''short''), (''price'', JNum (PInt (10 ^ 400))),
            (''size'', JNum (PInt 5))],
      JObj [(''side'', JStr ''long''), (''price'', JStr ''abc''), (''size'', JNum (PInt 6))],
      JObj [(''side'', JStr ''short''), (''size'', JNum (PInt 7))],
      JObj [(''side'', JStr ''long''), (''price'', JNum (PInt 103)), (''size'', JNum (PInt 8))]]"

definition five_entries :: "json list" where
  "five_entries =
     [JObj [(''side'', JStr ''short''), (''price'', JNum (PInt 101)), (''size'', JNum (PInt 1))],
      JObj [(''side'', JStr ''long''), (''price'', JNum (PInt 102)), (''size'', JNum (PInt 2))],
      JObj [(''side'', JStr ''short''), (''price'', JNum (PInt 103)), (''size'', JNum (PInt 3))],
      JObj [(''side'', JStr ''long''), (''price'', JNum (PInt 104)), (''size'', JNum (PInt 4))],
      JObj [(''side'', JStr ''long''), (''price'', JNum (PInt 105)), (''size'', JNum (PInt 5))]]"

definition big_five_entries :: "json list" where
  "big_five_entries =
     [JObj [(''side'', JStr ''short''), (''price'', JNum (PInt (10 ^ 400))),
            (''size'', JNum (PInt 1))],
      JObj [(''side'', JStr ''long''), (''price'', JNum (PInt 102)), (''size'', JNum (PInt 2))],
      JObj [(''side'', JStr ''short''), (''price'', JNum (PInt 103)), (''size'', JNum (PInt 3))],
      JObj [(''side'', JStr ''long''), (''price'', JNum (PInt 104)), (''size'', JNum (PInt 4))],
      JObj [(''side'', JStr ''long''), (''price'', JNum (PInt 105)), (''size'', JNum (PInt 5))]]"

definition serve :: "json list \<Rightarrow> string \<Rightarrow> http_result" where
  "serve entries url = Response 200 (Some (JObj [(''data'', JArr entries)]))"

definition serve_500 :: "string \<Rightarrow> http_result" where
  "serve_500 url = Response 500 None"

section \<open>Properties\<close>

subsection \<open>Rounding\<close>

lemma rhe_bounds: "of_int \<lfloor>t\<rfloor> \<le> (of_int (round_half_even t) :: real)"
  "round_half_even t \<le> \<lfloor>t\<rfloor> + 1"
  by (auto simp: round_half_even_def Let_def)

lemma rhe_int [simp]: "round_half_even (of_int n) = n"
  by (simp add: round_half_even_def)

lemma rhe_mono:
  assumes "s \<le> t"
  shows "round_half_even s \<le> round_half_even t"
proof (cases "\<lfloor>s\<rfloor> = \<lfloor>t\<rfloor>")
  case True
  then show ?thesis using assms
    by (auto simp: round_half_even_def Let_def)
next
  case False
  then have "\<lfloor>s\<rfloor> < \<lfloor>t\<rfloor>" using assms floor_mono [of s t] by linarith
  then have "round_half_even s \<le> \<lfloor>t\<rfloor>" using rhe_bounds(2) [of s] by linarith
  also have "\<dots> \<le> round_half_even t"
    by (auto simp: round_half_even_def Let_def)
  finally show ?thesis .
qed

lemma ulp_pos [simp]: "0 < ulp x"
  by (simp add: ulp_def)

lemma ulp_nonneg [simp]: "0 \<le> ulp x"
  by (simp add: ulp_def)

lemma ulp_neq0 [simp]: "ulp x \<noteq> 0"
  by (simp add: ulp_def)

lemma rhe_0 [simp]: "round_half_even 0 = 0"
  by (simp add: round_half_even_def)

lemma binade_ge [simp]: "- 1022 \<le> binade x"
  by (simp add: binade_def)

lemma abs_less_binade: "\<bar>x\<bar> < 2 powr of_int (binade x + 1)"
proof (cases "x = 0")
  case True
  then show ?thesis by simp
next
  case False
  then have pos: "0 < \<bar>x\<bar>" by simp
  have "log 2 \<bar>x\<bar> < of_int (\<lfloor>log 2 \<bar>x\<bar>\<rfloor> + 1)" by linarith
  also have "\<dots> \<le> of_int (binade x + 1)" using False by (simp add: binade_def)
  finally have "log 2 \<bar>x\<bar> < of_int (binade x + 1)" .
  then show ?thesis using pos by (simp add: log_less_iff)
qed

lemma binade_le_abs:
  assumes "- 1022 < binade x"
  shows "2 powr of_int (binade x) \<le> \<bar>x\<bar>"
proof -
  have nz: "x \<noteq> 0" using assms by (auto simp: binade_def)
  then have b: "binade x = \<lfloor>log 2 \<bar>x\<bar>\<rfloor>" using assms by (auto simp: binade_def max_def split: if_splits)
  have "of_int (binade x) \<le> log 2 \<bar>x\<bar>" unfolding b by simp
  then show ?thesis using nz by (simp add: le_log_iff)
qed

lemma binade_mono:
  assumes "\<bar>x\<bar> \<le> \<bar>y\<bar>"
  shows "binade x \<le> binade y"
proof (cases "x = 0")
  case True
  then show ?thesis by (simp add: binade_def)
next
  case False
  then have "y \<noteq> 0" using assms by auto
  have "log 2 \<bar>x\<bar> \<le> log 2 \<bar>y\<bar>" using False assms by simp
  then have "\<lfloor>log 2 \<bar>x\<bar>\<rfloor> \<le> \<lfloor>log 2 \<bar>y\<bar>\<rfloor>" by (rule floor_mono)
  then show ?thesis using False \<open>y \<noteq> 0\<close> by (simp add: binade_def)
qed

lemma powr_int_ratio: "2 powr of_int (b + k) / 2 powr of_int b = (2::real) powr of_int k"
  by (simp add: powr_diff [symmetric])

lemma scaled_upper:
  "\<bar>x\<bar> / ulp x < 2 ^ 53"
proof -
  have "\<bar>x\<bar> / ulp x < 2 powr of_int (binade x + 1) / ulp x"
    using abs_less_binade [of x] by (intro divide_strict_right_mono) simp_all
  also have "\<dots> = 2 powr of_int 53"
    unfolding ulp_def using powr_int_ratio [of "binade x - 52" 53] by (simp add: algebra_simps)
  also have "\<dots> = 2 ^ 53" by simp
  finally show ?thesis .
qed

lemma scaled_lower:
  assumes "- 1022 < binade x"
  shows "2 ^ 52 \<le> \<bar>x\<bar> / ulp x"
proof -
  have "2 powr of_int 52 = 2 powr of_int (binade x) / ulp x"
    unfolding ulp_def using powr_int_ratio [of "binade x - 52" 52] by (simp add: algebra_simps)
  also have "\<dots> \<le> \<bar>x\<bar> / ulp x"
    using binade_le_abs [OF assms] by (intro divide_right_mono) simp_all
  finally show ?thesis by simp
qed

lemma ulp_times_53: "2 ^ 53 * ulp x = 2 powr of_int (binade x + 1)"
proof -
  have "2 powr of_int (binade x + 1) / ulp x = 2 powr of_int 53"
    unfolding ulp_def using powr_int_ratio [of "binade x - 52" 53] by (simp add: algebra_simps)
  then show ?thesis by (simp add: field_simps)
qed

lemma ulp_times_52: "2 ^ 52 * ulp x = 2 powr of_int (binade x)"
proof -
  have "2 powr of_int (binade x) / ulp x = 2 powr of_int 52"
    unfolding ulp_def using powr_int_ratio [of "binade x - 52" 52] by (simp add: algebra_simps)
  then show ?thesis by (simp add: field_simps)
qed

lemma round_magnitude_nonneg:
  assumes "0 \<le> x"
  shows "0 \<le> round_magnitude x"
proof -
  have "round_half_even 0 \<le> round_half_even (x / ulp x)"
    using assms by (intro rhe_mono) simp
  then have "0 \<le> round_half_even (x / ulp x)" using rhe_int [of 0] by simp
  then show ?thesis by (simp add: round_magnitude_def)
qed

lemma round_magnitude_upper:
  assumes "0 \<le> x"
  shows "round_magnitude x \<le> 2 powr of_int (binade x + 1)"
proof -
  have "x / ulp x \<le> 2 ^ 53" using scaled_upper [of x] assms by simp
  then have "round_half_even (x / ulp x) \<le> round_half_even (of_int (2 ^ 53))"
    by (intro rhe_mono) simp
  then have "round_half_even (x / ulp x) \<le> 2 ^ 53" by (simp only: rhe_int)
  then have "(of_int (round_half_even (x / ulp x)) :: real) \<le> of_int (2 ^ 53)"
    by (simp only: of_int_le_iff)
  then have "round_magnitude x \<le> 2 ^ 53 * ulp x"
    unfolding round_magnitude_def by (simp add: mult_right_mono)
  then show ?thesis by (simp only: ulp_times_53)
qed

lemma round_magnitude_lower:
  assumes "0 \<le> x" "- 1022 < binade x"
  shows "2 powr of_int (binade x) \<le> round_magnitude x"
proof -
  have "2 ^ 52 \<le> x / ulp x" using scaled_lower [OF assms(2)] assms(1) by simp
  then have "round_half_even (of_int (2 ^ 52)) \<le> round_half_even (x / ulp x)"
    by (intro rhe_mono) simp
  then have "2 ^ 52 \<le> round_half_even (x / ulp x)" by (simp only: rhe_int)
  then have "(of_int (2 ^ 52) :: real) \<le> of_int (round_half_even (x / ulp x))"
    by (simp only: of_int_le_iff)
  then have "2 ^ 52 * ulp x \<le> round_magnitude x"
    unfolding round_magnitude_def by (simp add: mult_right_mono)
  then show ?thesis by (simp only: ulp_times_52)
qed

lemma round_magnitude_mono:
  assumes "0 \<le> x" "x \<le> y"
  shows "round_magnitude x \<le> round_magnitude y"
proof -
  have b: "binade x \<le> binade y" using assms by (intro binade_mono) simp
  show ?thesis
  proof (cases "binade x = binade y")
    case True
    then have u: "ulp x = ulp y" by (simp add: ulp_def)
    have "x / ulp y \<le> y / ulp y" using assms by (intro divide_right_mono) simp_all
    then have "round_half_even (x / ulp y) \<le> round_half_even (y / ulp y)" by (rule rhe_mono)
    then show ?thesis unfolding round_magnitude_def u by (simp add: mult_right_mono)
  next
    case False
    then have lt: "binade x + 1 \<le> binade y" using b by simp
    then have n: "- 1022 < binade y" using binade_ge [of x] by linarith
    have "round_magnitude x \<le> 2 powr of_int (binade x + 1)"
      using assms(1) by (rule round_magnitude_upper)
    also have "\<dots> \<le> 2 powr of_int (binade y)"
      using lt by (intro powr_mono) simp_all
    also have "\<dots> \<le> round_magnitude y"
      using assms n by (intro round_magnitude_lower) simp_all
    finally show ?thesis .
  qed
qed

lemma round_double_mono:
  assumes "x \<le> y"
  shows "round_double x \<le> round_double y"
proof -
  consider "0 \<le> x" | "x < 0" "y < 0" | "x < 0" "0 \<le> y" by linarith
  then show ?thesis
  proof cases
    case 1
    then show ?thesis using assms by (simp add: round_double_def round_magnitude_mono)
  next
    case 2
    then have "round_magnitude (- y) \<le> round_magnitude (- x)"
      using assms by (intro round_magnitude_mono) simp_all
    then show ?thesis using 2 by (simp add: round_double_def)
  next
    case 3
    have "0 \<le> round_magnitude (- x)" "0 \<le> round_magnitude y"
      using 3 by (simp_all add: round_magnitude_nonneg)
    then show ?thesis using 3 by (simp add: round_double_def)
  qed
qed

lemma binade_double:
  assumes "x \<noteq> 0" "e = \<lfloor>log 2 \<bar>x\<bar>\<rfloor>"
  shows "binade x = max e (- 1022)" "binade (2 * x) = max (e + 1) (- 1022)"
proof -
  show "binade x = max e (- 1022)" using assms by (simp only: binade_def if_False)
  have "log 2 \<bar>2 * x\<bar> = log 2 \<bar>x\<bar> + 1"
    using assms(1) by (simp add: abs_mult log_mult)
  then have "\<lfloor>log 2 \<bar>2 * x\<bar>\<rfloor> = e + 1" unfolding assms(2) by simp
  moreover have "2 * x \<noteq> 0" using assms(1) by simp
  ultimately show "binade (2 * x) = max (e + 1) (- 1022)"
    by (simp only: binade_def if_False)
qed

lemma round_magnitude_fixed_scaled:
  assumes "round_magnitude x = x"
  shows "x / ulp x = of_int (round_half_even (x / ulp x))"
  using assms ulp_pos [of x] unfolding round_magnitude_def
  by (metis nonzero_mult_div_cancel_right less_irrefl)

lemma round_magnitude_twice:
  assumes "round_magnitude x = x"
  shows "round_magnitude (2 * x) = 2 * x"
proof (cases "x = 0")
  case True
  then show ?thesis by (simp add: round_magnitude_def)
next
  case False
  obtain k :: int where k: "x / ulp x = of_int k"
    using round_magnitude_fixed_scaled [OF assms] by blast
  define e where "e = \<lfloor>log 2 \<bar>x\<bar>\<rfloor>"
  note b = binade_double [OF False e_def]
  show ?thesis
  proof (cases "e < - 1022")
    case True
    then have "binade (2 * x) = binade x" using b by (simp add: max_def)
    then have u: "ulp (2 * x) = ulp x" by (simp add: ulp_def)
    have "2 * x / ulp x = of_int (2 * k)" using k by simp
    then have "round_half_even (2 * x / ulp x) = 2 * k" by (simp only: rhe_int)
    then have "round_magnitude (2 * x) = of_int (2 * k) * ulp x"
      unfolding round_magnitude_def u by simp
    also have "\<dots> = 2 * x" using k by (simp add: field_simps)
    finally show ?thesis .
  next
    case False2: False
    then have "binade (2 * x) = binade x + 1" using b by (simp add: max_def)
    then have "ulp (2 * x) = 2 powr (of_int (binade x - 52) + 1)"
      by (simp add: ulp_def algebra_simps)
    also have "\<dots> = 2 powr of_int (binade x - 52) * 2 powr 1"
      by (rule powr_add)
    finally have u: "ulp (2 * x) = 2 * ulp x"
      by (simp add: ulp_def)
    have "2 * x / (2 * ulp x) = of_int k" using k by simp
    then have "round_half_even (2 * x / (2 * ulp x)) = k" by (simp only: rhe_int)
    then have "round_magnitude (2 * x) = of_int k * (2 * ulp x)"
      unfolding round_magnitude_def u by simp
    also have "\<dots> = 2 * x" using k by (simp add: field_simps)
    finally show ?thesis .
  qed
qed

lemma round_double_twice:
  assumes "round_double x = x"
  shows "round_double (2 * x) = 2 * x"
proof (cases "x < 0")
  case True
  then have "round_magnitude (- x) = - x" using assms by (simp add: round_double_def)
  then have "round_magnitude (2 * (- x)) = 2 * (- x)" by (rule round_magnitude_twice)
  then show ?thesis using True by (simp add: round_double_def)
next
  case False
  then have "round_magnitude x = x" using assms by (simp add: round_double_def)
  then have "round_magnitude (2 * x) = 2 * x" by (rule round_magnitude_twice)
  then show ?thesis using False by (simp add: round_double_def)
qed

lemma round_magnitude_0 [simp]: "round_magnitude 0 = 0"
  by (simp add: round_magnitude_def)

lemma round_double_0 [simp]: "round_double 0 = 0"
  by (simp add: round_double_def)

lemma round_magnitude_1: "round_magnitude 1 = 1"
proof -
  have "binade 1 = 0" by (simp add: binade_def)
  then have u: "ulp 1 = 1 / 2 ^ 52" by (simp add: ulp_def powr_minus_divide)
  have "1 / ulp 1 = of_int (2 ^ 52)" unfolding u by simp
  then have "round_half_even (1 / ulp 1) = 2 ^ 52" by (simp only: rhe_int)
  then show ?thesis unfolding round_magnitude_def by (simp add: u)
qed

lemma round_double_pow2: "round_double (2 ^ n) = 2 ^ n"
proof (induction n)
  case 0
  show ?case using round_magnitude_1 by (simp add: round_double_def)
next
  case (Suc n)
  then show ?case using round_double_twice [of "2 ^ n"] by simp
qed

lemma round_double_neg: "round_double (- x) = - round_double x"
  by (cases "x = 0") (auto simp: round_double_def)

text \<open>Integers below 2^53 in magnitude are doubles.\<close>

lemma round_magnitude_nat:
  assumes "n < 2 ^ 53"
  shows "round_magnitude (of_nat n) = of_nat n"
proof (cases "n = 0")
  case True
  then show ?thesis by (simp add: round_magnitude_def)
next
  case False
  define x :: real where "x = of_nat n"
  have xpos: "0 < x" "1 \<le> x" using False by (simp_all add: x_def)
  have "0 \<le> log 2 x" using xpos by simp
  then have b0: "0 \<le> binade x" using xpos by (simp add: binade_def le_max_iff_disj)
  have "x < 2 ^ 53" using assms by (simp add: x_def)
  have "binade x \<le> 52"
  proof (rule ccontr)
    assume "\<not> binade x \<le> 52"
    then have "53 \<le> binade x" by simp
    then have "(2::real) powr of_int 53 \<le> 2 powr of_int (binade x)"
      by (intro powr_mono) simp_all
    also have "\<dots> \<le> \<bar>x\<bar>" using b0 by (intro binade_le_abs) simp
    finally show False using \<open>x < 2 ^ 53\<close> xpos by simp
  qed
  define j where "j = nat (52 - binade x)"
  have "of_int (binade x - 52) = - real j" using \<open>binade x \<le> 52\<close> by (simp add: j_def)
  then have u: "ulp x = 1 / 2 ^ j" by (simp add: ulp_def powr_minus_divide powr_realpow)
  have "x / ulp x = of_int (int n * 2 ^ j)" unfolding u by (simp add: x_def)
  then have "round_half_even (x / ulp x) = int n * 2 ^ j" by (simp only: rhe_int)
  then have "round_magnitude x = of_int (int n * 2 ^ j) * (1 / 2 ^ j)"
    unfolding round_magnitude_def by (simp only: u)
  also have "\<dots> = x" by (simp add: x_def)
  finally show ?thesis by (simp only: x_def)
qed

lemma round_double_int:
  assumes "\<bar>n\<bar> < 2 ^ 53"
  shows "round_double (of_int n) = of_int n"
proof (cases "n < 0")
  case True
  then have "nat (- n) < 2 ^ 53" using assms by simp
  then have "round_magnitude (of_nat (nat (- n))) = of_nat (nat (- n))"
    by (rule round_magnitude_nat)
  then show ?thesis using True by (simp add: round_double_def)
next
  case False
  then have "nat n < 2 ^ 53" using assms by simp
  then have "round_magnitude (of_nat (nat n)) = of_nat (nat n)"
    by (rule round_magnitude_nat)
  then show ?thesis using False by (simp add: round_double_def)
qed

lemma binade_eqI:
  assumes "- 1022 \<le> e" "\<bar>y\<bar> < 2 powr of_int (e + 1)" "e = - 1022 \<or> 2 powr of_int e \<le> \<bar>y\<bar>"
  shows "binade y = e"
proof (cases "y = 0")
  case True
  then show ?thesis using assms(3) by (auto simp: binade_def)
next
  case False
  define l where "l = \<lfloor>log 2 \<bar>y\<bar>\<rfloor>"
  have "log 2 \<bar>y\<bar> < of_int (e + 1)" using assms(2) False by (simp add: log_less_iff)
  then have "\<lfloor>log 2 \<bar>y\<bar>\<rfloor> < e + 1" by (simp only: floor_less_iff)
  then have up: "l \<le> e" unfolding l_def by linarith
  have b: "binade y = max l (- 1022)" using False by (simp only: binade_def l_def if_False)
  from assms(3) show ?thesis
  proof
    assume "e = - 1022"
    then show ?thesis using b up by (simp add: max_def)
  next
    assume "2 powr of_int e \<le> \<bar>y\<bar>"
    then have "of_int e \<le> log 2 \<bar>y\<bar>" using False by (simp add: le_log_iff)
    then have "e \<le> l" unfolding l_def by (simp add: le_floor_iff)
    then show ?thesis using b up assms(1) by (simp add: max_def)
  qed
qed

lemma round_magnitude_idem:
  assumes "0 \<le> x"
  shows "round_magnitude (round_magnitude x) = round_magnitude x"
proof -
  define y where "y = round_magnitude x"
  define k where "k = round_half_even (x / ulp x)"
  have yk: "y = of_int k * ulp x" by (simp add: y_def k_def round_magnitude_def)
  have y0: "0 \<le> y" unfolding y_def using assms by (rule round_magnitude_nonneg)
  have yu: "y \<le> 2 powr of_int (binade x + 1)"
    unfolding y_def using assms by (rule round_magnitude_upper)
  show ?thesis
  proof (cases "y = 2 powr of_int (binade x + 1)")
    case True
    have "\<bar>y\<bar> < 2 powr of_int (binade x + 1 + 1)"
      unfolding True by (simp add: powr_less_cancel_iff)
    moreover have "- 1022 \<le> binade x + 1" using binade_ge [of x] by linarith
    moreover have "2 powr of_int (binade x + 1) \<le> \<bar>y\<bar>" unfolding True by simp
    ultimately have b: "binade y = binade x + 1"
      by (intro binade_eqI) simp_all
    have "2 ^ 52 * ulp y = 2 powr of_int (binade y)" by (rule ulp_times_52)
    then have e: "of_int (2 ^ 52) * ulp y = y" using True b by simp
    then have "y / ulp y = of_int (2 ^ 52)" by (simp add: field_simps)
    then have "round_half_even (y / ulp y) = 2 ^ 52" by (simp only: rhe_int)
    then have "round_magnitude y = of_int (2 ^ 52) * ulp y"
      by (simp add: round_magnitude_def)
    then show ?thesis using e by (simp add: y_def)
  next
    case False
    then have lt: "\<bar>y\<bar> < 2 powr of_int (binade x + 1)" using yu y0 by simp
    have "binade x = - 1022 \<or> 2 powr of_int (binade x) \<le> \<bar>y\<bar>"
    proof (cases "binade x = - 1022")
      case False
      then have "- 1022 < binade x" using binade_ge [of x] by linarith
      then have "2 powr of_int (binade x) \<le> y"
        unfolding y_def using assms by (intro round_magnitude_lower) simp_all
      then show ?thesis using y0 by simp
    qed simp
    then have "binade y = binade x" using lt by (intro binade_eqI) simp_all
    then have u: "ulp y = ulp x" by (simp add: ulp_def)
    have "y / ulp x = of_int k" using yk by simp
    then have "round_half_even (y / ulp x) = k" by (simp only: rhe_int)
    then have "round_magnitude y = of_int k * ulp x"
      by (simp add: round_magnitude_def u)
    then show ?thesis using yk by (simp add: y_def)
  qed
qed

lemma round_double_idem: "round_double (round_double x) = round_double x"
proof (cases "x < 0")
  case True
  define y where "y = round_magnitude (- x)"
  have y0: "0 \<le> y" unfolding y_def using True by (intro round_magnitude_nonneg) simp
  have i: "round_magnitude y = y" unfolding y_def using True by (intro round_magnitude_idem) simp
  have "round_double x = - y" using True by (simp add: round_double_def y_def)
  moreover have "round_double (- y) = - y"
    using y0 i by (cases "y = 0") (simp_all add: round_double_def)
  ultimately show ?thesis by simp
next
  case False
  then have "0 \<le> round_magnitude x" by (intro round_magnitude_nonneg) simp
  then show ?thesis using False by (simp add: round_double_def round_magnitude_idem)
qed

subsection \<open>Comparison\<close>

lemma float_le_refl: "a \<noteq> NaN \<Longrightarrow> float_le a a"
  by (simp add: float_le_def)

lemma float_le_trans: "float_le a b \<Longrightarrow> float_le b c \<Longrightarrow> float_le a c"
  by (auto simp: float_le_def)

lemma float_lt_le: "float_lt a b \<Longrightarrow> float_le a b"
  by (auto simp: float_lt_def float_le_def)

lemma float_not_lt_le: "a \<noteq> NaN \<Longrightarrow> b \<noteq> NaN \<Longrightarrow> \<not> float_lt a b \<Longrightarrow> float_le b a"
  by (auto simp: float_lt_def float_le_def)

lemma float_le_not_nan: "float_le a b \<Longrightarrow> a \<noteq> NaN \<and> b \<noteq> NaN"
  by (simp add: float_le_def)

lemma float_le_Fin [simp]: "float_le (Fin x) (Fin y) \<longleftrightarrow> x \<le> y"
  by (simp add: float_le_def)

lemma float_lt_Fin [simp]: "float_lt (Fin x) (Fin y) \<longleftrightarrow> x < y"
  by (simp add: float_lt_def)

lemma exact_nan: "exact a = NaN \<longleftrightarrow> is_nan a"
  by (cases a) (simp_all add: is_nan_def)

lemma py_le_refl: "\<not> is_nan a \<Longrightarrow> py_le a a"
  by (simp add: py_le_def float_le_refl exact_nan)

lemma py_le_trans: "py_le a b \<Longrightarrow> py_le b c \<Longrightarrow> py_le a c"
  unfolding py_le_def by (rule float_le_trans)

lemma py_lt_le: "py_lt a b \<Longrightarrow> py_le a b"
  unfolding py_le_def py_lt_def by (rule float_lt_le)

lemma py_not_lt_le: "\<not> is_nan a \<Longrightarrow> \<not> is_nan b \<Longrightarrow> \<not> py_lt a b \<Longrightarrow> py_le b a"
  unfolding py_le_def py_lt_def by (intro float_not_lt_le) (simp_all add: exact_nan)

lemma py_le_not_nan: "py_le a b \<Longrightarrow> \<not> is_nan a \<and> \<not> is_nan b"
  unfolding py_le_def using float_le_not_nan exact_nan by blast

subsection \<open>Conversion to float\<close>

lemma valid_float_fixed: "valid_float f \<Longrightarrow> float_fixed f"
  by (cases f) simp_all

lemma to_float_fixed:
  assumes "valid_num a" "to_float a = Inr f"
  shows "float_fixed f"
proof (cases a)
  case (PInt n)
  then show ?thesis using assms(2) by (auto simp: round_double_idem split: if_splits)
next
  case (PFl g)
  then show ?thesis using assms by (simp add: valid_float_fixed)
qed

lemma exact_le_to_float:
  assumes "float_le (exact a) (exact b)" "to_float a = Inr fa" "to_float b = Inr fb"
    and "float_fixed fa" "float_fixed fb"
  shows "float_le fa fb"
proof (cases a)
  case a: (PInt m)
  show ?thesis
  proof (cases b)
    case (PInt n)
    then show ?thesis using a assms(1-3) by (auto simp: round_double_mono split: if_splits)
  next
    case (PFl g)
    then have g: "fb = g" using assms(3) by simp
    show ?thesis
    proof (cases g)
      case (Fin y)
      then have "of_int m \<le> y" using a PFl assms(1) by simp
      then have "round_double (of_int m) \<le> round_double y" by (rule round_double_mono)
      then show ?thesis using a assms(2,5) g Fin by (auto split: if_splits)
    qed (use a PFl assms(1,2) g in \<open>auto simp: float_le_def split: if_splits\<close>)
  qed
next
  case a: (PFl f)
  then have f: "fa = f" using assms(2) by simp
  show ?thesis
  proof (cases b)
    case (PInt n)
    show ?thesis
    proof (cases f)
      case (Fin x)
      then have "x \<le> of_int n" using a PInt assms(1) by simp
      then have "round_double x \<le> round_double (of_int n)" by (rule round_double_mono)
      then show ?thesis using PInt assms(3,4) f Fin by (auto split: if_splits)
    qed (use a PInt assms(1,3) f in \<open>auto simp: float_le_def split: if_splits\<close>)
  next
    case (PFl g)
    then show ?thesis using a assms(1-3) by simp
  qed
qed

lemma to_float_mono:
  assumes "py_le a b" "valid_num a" "valid_num b" "to_float a = Inr fa" "to_float b = Inr fb"
  shows "float_le fa fb"
  using assms exact_le_to_float to_float_fixed unfolding py_le_def by blast

subsection \<open>The mean of two floats\<close>

lemma fl_round_Fin: "fl_round x = Fin y \<Longrightarrow> y = round_double x"
  by (auto simp: fl_round_def split: if_splits)

lemma float_mean_between:
  assumes "float_le b a" "float_fixed a" "float_fixed b"
    and "float_div2 (float_add a b) = Fin m"
  shows "float_le b (Fin m) \<and> float_le (Fin m) a"
proof -
  obtain t where t: "float_add a b = Fin t" "fl_round (t / 2) = Fin m"
    using assms(4) by (cases "float_add a b") simp_all
  obtain x y where xy: "a = Fin x" "b = Fin y"
    using t(1) by (cases a; cases b) simp_all
  have fx: "round_double x = x" "round_double y = y" using assms(2,3) xy by simp_all
  have le: "y \<le> x" using assms(1) xy by simp
  have tt: "t = round_double (x + y)" using t(1) xy by (simp add: fl_round_Fin)
  have mm: "m = round_double (t / 2)" using t(2) by (simp add: fl_round_Fin)
  have "round_double (2 * y) \<le> t" unfolding tt using le by (intro round_double_mono) simp
  then have lo: "2 * y \<le> t" using round_double_twice [OF fx(2)] by simp
  have "t \<le> round_double (2 * x)" unfolding tt using le by (intro round_double_mono) simp
  then have hi: "t \<le> 2 * x" using round_double_twice [OF fx(1)] by simp
  have "round_double y \<le> m" unfolding mm using lo by (intro round_double_mono) simp
  moreover have "m \<le> round_double x" unfolding mm using hi by (intro round_double_mono) simp
  ultimately show ?thesis using fx xy by simp
qed

lemma midline_between:
  assumes "py_le sl sh" "valid_num sh" "valid_num sl"
    and "py_add sh sl = Inr s" "py_div2 s = Inr (Fin m)"
    and "to_float sh = Inr shf" "to_float sl = Inr slf"
  shows "float_le slf (Fin m) \<and> float_le (Fin m) shf"
proof (cases "\<exists>a b. sh = PInt a \<and> sl = PInt b")
  case True
  then obtain a b where ab: "sh = PInt a" "sl = PInt b" by blast
  have le: "(of_int b :: real) \<le> of_int a" using assms(1) ab by (simp add: py_le_def)
  have m: "m = round_double (of_int (a + b) / 2)"
    using assms(4,5) ab by (auto split: if_splits)
  have "round_double (of_int b) \<le> m" unfolding m using le by (intro round_double_mono) simp
  moreover have "m \<le> round_double (of_int a)"
    unfolding m using le by (intro round_double_mono) simp
  ultimately show ?thesis using assms(6,7) ab by (auto split: if_splits)
next
  case False
  then have "py_add sh sl =
     py_bind (to_float sh) (\<lambda>x. py_bind (to_float sl) (\<lambda>y. Inr (PFl (float_add x y))))"
    by (cases sh; cases sl) simp_all
  then have s: "s = PFl (float_add shf slf)"
    using assms(4,6,7) by (simp add: py_bind_def)
  then have d: "float_div2 (float_add shf slf) = Fin m" using assms(5) by simp
  have "float_le slf shf" using assms(1,2,3,6,7) by (intro to_float_mono [of sl sh]) simp_all
  moreover have "float_fixed shf" "float_fixed slf"
    using assms(2,3,6,7) to_float_fixed by blast+
  ultimately show ?thesis using d by (intro float_mean_between) simp_all
qed

subsection \<open>Maximum, minimum and sorting\<close>

lemma max_loop_props:
  assumes "\<not> is_nan m" "\<forall>x\<in>set xs. \<not> is_nan x"
  shows "max_loop m xs \<in> set (m # xs) \<and> (\<forall>x\<in>set (m # xs). py_le x (max_loop m xs))"
  using assms
proof (induction xs arbitrary: m)
  case Nil
  then show ?case by (simp add: py_le_refl)
next
  case (Cons y ys)
  show ?case
  proof (cases "py_lt m y")
    case True
    have ih: "max_loop y ys \<in> set (y # ys) \<and> (\<forall>x\<in>set (y # ys). py_le x (max_loop y ys))"
      using Cons.prems by (intro Cons.IH) simp_all
    then have "py_le y (max_loop y ys)" by simp
    then have "py_le m (max_loop y ys)" using True py_lt_le py_le_trans by blast
    then show ?thesis using True ih by simp
  next
    case False
    have ih: "max_loop m ys \<in> set (m # ys) \<and> (\<forall>x\<in>set (m # ys). py_le x (max_loop m ys))"
      using Cons.prems by (intro Cons.IH) simp_all
    have "py_le y m" using False Cons.prems by (intro py_not_lt_le) simp_all
    moreover have "py_le m (max_loop m ys)" using ih by simp
    ultimately have "py_le y (max_loop m ys)" using py_le_trans by blast
    then show ?thesis using False ih by auto
  qed
qed

lemma min_loop_props:
  assumes "\<not> is_nan m" "\<forall>x\<in>set xs. \<not> is_nan x"
  shows "min_loop m xs \<in> set (m # xs) \<and> (\<forall>x\<in>set (m # xs). py_le (min_loop m xs) x)"
  using assms
proof (induction xs arbitrary: m)
  case Nil
  then show ?case by (simp add: py_le_refl)
next
  case (Cons y ys)
  show ?case
  proof (cases "py_lt y m")
    case True
    have ih: "min_loop y ys \<in> set (y # ys) \<and> (\<forall>x\<in>set (y # ys). py_le (min_loop y ys) x)"
      using Cons.prems by (intro Cons.IH) simp_all
    then have "py_le (min_loop y ys) y" by simp
    then have "py_le (min_loop y ys) m" using True py_lt_le py_le_trans by blast
    then show ?thesis using True ih by simp
  next
    case False
    have ih: "min_loop m ys \<in> set (m # ys) \<and> (\<forall>x\<in>set (m # ys). py_le (min_loop m ys) x)"
      using Cons.prems by (intro Cons.IH) simp_all
    have "py_le m y" using False Cons.prems by (intro py_not_lt_le) simp_all
    moreover have "py_le (min_loop m ys) m" using ih by simp
    ultimately have "py_le (min_loop m ys) y" using py_le_trans by blast
    then show ?thesis using False ih by auto
  qed
qed

lemma py_max_props:
  assumes "py_max xs = Inr m" "\<forall>x\<in>set xs. \<not> is_nan x"
  shows "m \<in> set xs \<and> (\<forall>x\<in>set xs. py_le x m)"
proof (cases xs)
  case Nil
  then show ?thesis using assms(1) by (simp add: py_max_def)
next
  case (Cons y ys)
  then have "m = max_loop y ys" using assms(1) by (simp add: py_max_def)
  then show ?thesis using max_loop_props [of y ys] assms(2) Cons by simp
qed

lemma py_min_props:
  assumes "py_min xs = Inr m" "\<forall>x\<in>set xs. \<not> is_nan x"
  shows "m \<in> set xs \<and> (\<forall>x\<in>set xs. py_le m x)"
proof (cases xs)
  case Nil
  then show ?thesis using assms(1) by (simp add: py_min_def)
next
  case (Cons y ys)
  then have "m = min_loop y ys" using assms(1) by (simp add: py_min_def)
  then show ?thesis using min_loop_props [of y ys] assms(2) Cons by simp
qed

lemma mset_insort_py: "mset (insort_py x xs) = add_mset x (mset xs)"
  by (induction xs) simp_all

lemma set_insort_py: "set (insort_py x xs) = insert x (set xs)"
  by (induction xs) auto

lemma sorted_insort_py:
  assumes "sorted_wrt py_le xs" "\<not> is_nan x" "\<forall>y\<in>set xs. \<not> is_nan y"
  shows "sorted_wrt py_le (insort_py x xs)"
  using assms
proof (induction xs)
  case Nil
  show ?case by simp
next
  case (Cons y ys)
  show ?case
  proof (cases "py_lt y x")
    case True
    have "sorted_wrt py_le (insort_py x ys)" using Cons by simp
    moreover have "\<forall>z\<in>set (insort_py x ys). py_le y z"
      using Cons.prems(1) True by (auto simp: set_insort_py py_lt_le)
    ultimately show ?thesis using True by simp
  next
    case False
    then have xy: "py_le x y" using Cons.prems by (intro py_not_lt_le) simp_all
    have "\<forall>z\<in>set ys. py_le x z" using Cons.prems(1) xy py_le_trans by auto
    then show ?thesis using False xy Cons.prems(1) by simp
  qed
qed

lemma mset_foldr_insort: "mset (foldr insort_py xs []) = mset xs"
  by (induction xs) (simp_all add: mset_insort_py)

lemma sorted_foldr_insort:
  "\<forall>x\<in>set xs. \<not> is_nan x \<Longrightarrow> sorted_wrt py_le (foldr insort_py xs [])"
proof (induction xs)
  case Nil
  show ?case by simp
next
  case (Cons x xs)
  have "set (foldr insort_py xs []) = set xs"
    using mset_foldr_insort [of xs] by (metis set_mset_mset)
  then show ?case using Cons by (simp add: sorted_insort_py)
qed

lemma py_sorted_props:
  assumes "\<forall>x\<in>set xs. \<not> is_nan x"
  shows "mset (py_sorted ns xs) = mset xs" "sorted_wrt py_le (py_sorted ns xs)"
  using assms by (simp_all add: py_sorted_def list_ex_iff mset_foldr_insort sorted_foldr_insort)

subsection \<open>Evaluation on small integers\<close>

lemma overflow_at_gt: "2 ^ 53 < overflow_at"
  by (simp add: overflow_at_def)

lemma round_double_numeral:
  "numeral k < (2 ^ 53 :: int) \<Longrightarrow> round_double (numeral k) = numeral k"
  using round_double_int [of "numeral k"] by simp

lemma fl_round_small:
  assumes "\<bar>n\<bar> < 2 ^ 53"
  shows "fl_round (of_int n) = Fin (of_int n)"
proof -
  have "\<bar>of_int n :: real\<bar> < 2 ^ 53" using assms by (metis of_int_abs of_int_less_iff of_int_numeral of_int_power)
  then have "\<not> overflow_at \<le> of_int n" "\<not> of_int n \<le> - overflow_at"
    using overflow_at_gt by linarith+
  then show ?thesis using assms by (simp add: fl_round_def round_double_int)
qed

lemma fl_round_numeral:
  "numeral k < (2 ^ 53 :: int) \<Longrightarrow> fl_round (numeral k) = Fin (numeral k)"
  using fl_round_small [of "numeral k"] by simp

lemma valid_num_int:
  assumes "\<bar>n\<bar> < 2 ^ 53"
  shows "valid_num (PFl (Fin (of_int n)))"
proof -
  have "\<bar>of_int n :: real\<bar> < 2 ^ 53"
    using assms by (metis of_int_abs of_int_less_iff of_int_numeral of_int_power)
  then have "\<bar>of_int n :: real\<bar> < overflow_at" using overflow_at_gt by linarith
  then show ?thesis using assms by (simp add: round_double_int)
qed

lemma valid_num_numeral:
  "numeral k < (2 ^ 53 :: int) \<Longrightarrow> valid_num (PFl (Fin (numeral k)))"
  using valid_num_int [of "numeral k"] by simp

subsection \<open>Sequencing and indexing\<close>

lemma py_bind_Inr_iff: "py_bind m f = Inr y \<longleftrightarrow> (\<exists>x. m = Inr x \<and> f x = Inr y)"
  by (cases m) (simp_all add: py_bind_def)

lemma py_bind_Inr [simp]: "py_bind (Inr x) f = f x"
  by (simp add: py_bind_def)

lemma py_bind_Inl [simp]: "py_bind (Inl e) f = Inl e"
  by (simp add: py_bind_def)

lemma py_index_nonneg:
  "0 \<le> k \<Longrightarrow> py_index xs k = Inr v \<longleftrightarrow> nat k < length xs \<and> v = xs ! nat k"
  by (auto simp: py_index_def)

lemma py_index_last: "py_index xs (- 1) = Inr v \<longleftrightarrow> xs \<noteq> [] \<and> v = last xs"
  by (cases xs rule: rev_cases) (auto simp: py_index_def nth_append)

lemma py_index_snoc_last: "py_index (pre @ [x]) (- 1) = Inr x"
  by (simp add: py_index_last)

lemma fields_Inr_iff:
  "0 \<le> k \<Longrightarrow>
   fields k cs = Inr vs \<longleftrightarrow> (\<forall>c\<in>set cs. nat k < length c) \<and> vs = map (\<lambda>c. c ! nat k) cs"
  by (induction cs arbitrary: vs) (auto simp: py_bind_Inr_iff py_index_nonneg)

lemma coerce_float_Inr_iff: "coerce_float x = Inr f \<longleftrightarrow> to_float x = Inr f"
  by (cases "to_float x") (simp_all add: coerce_float_def)

lemma py_mul_Inr_iff: "py_mul x c = Inr p \<longleftrightarrow> (\<exists>f. to_float x = Inr f \<and> p = float_mul f c)"
  by (auto simp: py_mul_def py_bind_Inr_iff)

lemma bos_of_trend:
  "bos_of (if b then ''bullish_HH_HL'' else ''bearish_LH_LL'') = (if b then ''up'' else ''down'')"
  by (simp add: bos_of_def)

lemmas detect_simps = py_bind_Inr_iff py_index_last py_index_nonneg fields_Inr_iff
  coerce_float_Inr_iff py_mul_Inr_iff

subsection \<open>What a returning run of the detector has computed\<close>

lemma detect_Inr_values:
  assumes "detect_structure_and_liquidity ns ohlcv_1d ohlcv_4h ohlcv_1h ohlcv_15m = Inr tfs"
  shows "\<exists>sh sl s M med shf slf lf.
           py_max (map (\<lambda>c. c ! 2) ohlcv_1d) = Inr sh
         \<and> py_min (map (\<lambda>c. c ! 3) ohlcv_1d) = Inr sl
         \<and> py_add sh sl = Inr s \<and> py_div2 s = Inr M
         \<and> median ns (map (\<lambda>c. c ! 4) ohlcv_4h) = Inr med
         \<and> to_float sh = Inr shf \<and> to_float sl = Inr slf
         \<and> to_float (last ohlcv_15m ! 4) = Inr lf"
  using assms
  by (clarsimp simp add: detect_structure_and_liquidity_def detect_simps Let_def)

lemma detect_Inr_contexts:
  assumes "detect_structure_and_liquidity ns ohlcv_1d ohlcv_4h ohlcv_1h ohlcv_15m = Inr tfs"
    and "py_max (map (\<lambda>c. c ! 2) ohlcv_1d) = Inr sh"
    and "py_min (map (\<lambda>c. c ! 3) ohlcv_1d) = Inr sl"
    and "py_add sh sl = Inr s" and "py_div2 s = Inr M"
    and "median ns (map (\<lambda>c. c ! 4) ohlcv_4h) = Inr med"
    and "to_float sh = Inr shf" and "to_float sl = Inr slf"
    and "to_float (last ohlcv_15m ! 4) = Inr lf"
  shows "tfs ''1D'' =
             Some \<lparr>bias = Some (if py_lt (last ohlcv_15m ! 4) (PFl M)
                                then ''discount_LONG'' else ''premium_SHORT''),
                   trend = Some (if py_lt med (last ohlcv_15m ! 4)
                                 then ''bullish_HH_HL'' else ''bearish_LH_LL''),
                   bos = Some (if py_lt med (last ohlcv_15m ! 4) then ''up'' else ''down''),
                   swing_high = Some shf, swing_low = Some slf, midline_50 = Some M,
                   ob_zones = [], fvg_zones = [], micro_liquidity = [],
                   current_price = Some lf\<rparr>"
    and "\<exists>tf z. tfs ''4H'' = Some tf
               \<and> bos tf = Some (if py_lt med (last ohlcv_15m ! 4) then ''up'' else ''down'')
               \<and> ob_zones tf = [z] \<and> ob_type z = ''bullish''"
    and "\<exists>tf z. tfs ''1H'' = Some tf
               \<and> bos tf = Some (if py_lt med (last ohlcv_15m ! 4) then ''up'' else ''down'')
               \<and> ob_zones tf = [z] \<and> ob_type z = ''bullish''"
    and "\<exists>tf. tfs ''15m'' = Some tf
               \<and> bos tf = Some (if py_lt med (last ohlcv_15m ! 4) then ''up'' else ''down'')"
  using assms
  by (clarsimp simp add: detect_structure_and_liquidity_def detect_simps Let_def
      TimeframeContext_default_def bos_of_trend)+

lemma py_max_nonempty: "py_max xs = Inr m \<Longrightarrow> xs \<noteq> []"
  by (auto simp: py_max_def)

subsection \<open>When the detector returns\<close>

lemma finite_floatD: "finite_float a \<Longrightarrow> \<exists>x. a = PFl (Fin x)"
  by (cases a rule: finite_float.cases) simp_all

lemma finite_float_not_nan: "finite_float a \<Longrightarrow> \<not> is_nan a"
  by (auto simp: is_nan_def)

lemma max_loop_mem: "max_loop m xs \<in> set (m # xs)"
  by (induction xs arbitrary: m) (simp, fastforce)

lemma min_loop_mem: "min_loop m xs \<in> set (m # xs)"
  by (induction xs arbitrary: m) (simp, fastforce)

lemma py_max_returns:
  assumes "xs \<noteq> []" "\<forall>x\<in>set xs. finite_float x"
  shows "\<exists>h. py_max xs = Inr (PFl (Fin h))"
proof -
  obtain y ys where xs: "xs = y # ys" using assms(1) by (cases xs) auto
  have "max_loop y ys \<in> set xs" unfolding xs by (rule max_loop_mem)
  then have "finite_float (max_loop y ys)" using assms(2) by blast
  then show ?thesis using xs finite_floatD by (auto simp: py_max_def)
qed

lemma py_min_returns:
  assumes "xs \<noteq> []" "\<forall>x\<in>set xs. finite_float x"
  shows "\<exists>h. py_min xs = Inr (PFl (Fin h))"
proof -
  obtain y ys where xs: "xs = y # ys" using assms(1) by (cases xs) auto
  have "min_loop y ys \<in> set xs" unfolding xs by (rule min_loop_mem)
  then have "finite_float (min_loop y ys)" using assms(2) by blast
  then show ?thesis using xs finite_floatD by (auto simp: py_min_def)
qed

lemma median_returns:
  assumes "xs \<noteq> []" "\<forall>x\<in>set xs. finite_float x"
  shows "\<exists>m. median ns xs = Inr m"
proof -
  define d where "d = py_sorted ns xs"
  have nn: "\<forall>x\<in>set xs. \<not> is_nan x" using assms(2) finite_float_not_nan by blast
  have ms: "mset d = mset xs" unfolding d_def using nn by (rule py_sorted_props)
  then have len: "length d = length xs" by (metis size_mset)
  then have d0: "length d \<noteq> 0" using assms(1) by simp
  have mem: "\<forall>x\<in>set d. finite_float x" using ms assms(2) by (metis set_mset_mset)
  show ?thesis
  proof (cases "length d mod 2 = 1")
    case True
    then show ?thesis using d0 by (simp add: median_def d_def [symmetric] Let_def)
  next
    case False
    have "0 < length d" using d0 by simp
    then have "length d div 2 - 1 < length d" "length d div 2 < length d" by linarith+
    then have "finite_float (d ! (length d div 2 - 1))" "finite_float (d ! (length d div 2))"
      using mem nth_mem by blast+
    then obtain a b where "d ! (length d div 2 - 1) = PFl (Fin a)" "d ! (length d div 2) = PFl (Fin b)"
      using finite_floatD by blast
    then show ?thesis using d0 False by (simp add: median_def d_def [symmetric] Let_def)
  qed
qed

lemma detect_returns:
  assumes "ohlcv_15m \<noteq> []" "ohlcv_1d \<noteq> []" "ohlcv_4h \<noteq> []"
    and "\<forall>c\<in>set ohlcv_1d. float_prices c" "\<forall>c\<in>set ohlcv_4h. float_prices c"
    and "float_prices (last ohlcv_15m)"
  shows "\<exists>tfs. detect_structure_and_liquidity ns ohlcv_1d ohlcv_4h ohlcv_1h ohlcv_15m = Inr tfs"
proof -
  obtain l where l: "last ohlcv_15m ! 4 = PFl (Fin l)"
    using assms(6) finite_floatD by (auto simp: float_prices_def)
  have i1: "py_index ohlcv_15m (- 1) = Inr (last ohlcv_15m)"
    using assms(1) by (simp add: py_index_last)
  have i2: "py_index (last ohlcv_15m) 4 = Inr (PFl (Fin l))"
    using assms(6) l by (simp add: py_index_nonneg float_prices_def)
  have f2: "fields 2 ohlcv_1d = Inr (map (\<lambda>c. c ! 2) ohlcv_1d)"
    using assms(4) by (simp add: fields_Inr_iff float_prices_def)
  have f3: "fields 3 ohlcv_1d = Inr (map (\<lambda>c. c ! 3) ohlcv_1d)"
    using assms(4) by (simp add: fields_Inr_iff float_prices_def)
  have f4: "fields 4 ohlcv_4h = Inr (map (\<lambda>c. c ! 4) ohlcv_4h)"
    using assms(5) by (simp add: fields_Inr_iff float_prices_def)
  obtain h where h: "py_max (map (\<lambda>c. c ! 2) ohlcv_1d) = Inr (PFl (Fin h))"
    using py_max_returns [of "map (\<lambda>c. c ! 2) ohlcv_1d"] assms(2,4)
    by (auto simp: float_prices_def)
  obtain w where w: "py_min (map (\<lambda>c. c ! 3) ohlcv_1d) = Inr (PFl (Fin w))"
    using py_min_returns [of "map (\<lambda>c. c ! 3) ohlcv_1d"] assms(2,4)
    by (auto simp: float_prices_def)
  obtain m where m: "median ns (map (\<lambda>c. c ! 4) ohlcv_4h) = Inr m"
    using median_returns [of "map (\<lambda>c. c ! 4) ohlcv_4h" ns] assms(3,5)
    by (auto simp: float_prices_def)
  show ?thesis
    unfolding detect_structure_and_liquidity_def
    by (simp add: i1 i2 f2 f3 f4 h w m coerce_float_def py_mul_def Let_def)
qed

subsection \<open>Numbers given as small integers\<close>

lemma exact_number [simp]: "exact (py_number b n) = Fin (of_int n)"
  by (simp add: py_number_def)

lemma py_lt_number [simp]: "py_lt (py_number a m) (py_number b n) \<longleftrightarrow> m < n"
  by (simp add: py_lt_def)

lemma py_lt_number_float [simp]: "py_lt (py_number a m) (PFl (Fin x)) \<longleftrightarrow> of_int m < x"
  by (simp add: py_lt_def)

lemma py_lt_float_number [simp]: "py_lt (PFl (Fin x)) (py_number b n) \<longleftrightarrow> x < of_int n"
  by (simp add: py_lt_def)

lemma py_lt_floats [simp]: "py_lt (PFl (Fin x)) (PFl (Fin y)) \<longleftrightarrow> x < y"
  by (simp add: py_lt_def)

lemma is_nan_number [simp]: "\<not> is_nan (py_number b n)"
  by (simp add: py_number_def is_nan_def)

lemma is_nan_Fin [simp]: "\<not> is_nan (PFl (Fin x))"
  by (simp add: is_nan_def)

lemma int_not_overflow:
  assumes "\<bar>n\<bar> < 2 ^ 53"
  shows "\<not> overflow_at \<le> \<bar>of_int n :: real\<bar>"
proof -
  have "\<bar>of_int n :: real\<bar> < 2 ^ 53"
    using assms by (metis of_int_abs of_int_less_iff of_int_numeral of_int_power)
  then show ?thesis using overflow_at_gt by linarith
qed

lemma to_float_number:
  "\<bar>n\<bar> < 2 ^ 53 \<Longrightarrow> to_float (py_number b n) = Inr (Fin (of_int n))"
  by (simp add: py_number_def int_not_overflow round_double_int)

lemma py_add_number:
  assumes "\<bar>m\<bar> < 2 ^ 53" "\<bar>n\<bar> < 2 ^ 53" "\<bar>m + n\<bar> < 2 ^ 53"
  shows "py_add (py_number a m) (py_number b n) = Inr (py_number (a \<and> b) (m + n))"
proof -
  have r: "fl_round (of_int m + of_int n) = Fin (of_int m + of_int n)"
    using fl_round_small [OF assms(3)] by simp
  show ?thesis
    using assms(1,2) r by (simp add: py_number_def int_not_overflow round_double_int)
qed

lemma py_div2_number:
  assumes "even n" "\<bar>n\<bar> < 2 ^ 53"
  shows "py_div2 (py_number b n) = Inr (Fin (of_int (n div 2)))"
proof -
  have h: "(of_int n :: real) / 2 = of_int (n div 2)" using assms(1) by auto
  have k: "\<bar>n div 2\<bar> < 2 ^ 53" using assms(2) by linarith
  have "\<not> overflow_at \<le> \<bar>of_int n / 2 :: real\<bar>"
    unfolding h using k by (rule int_not_overflow)
  moreover have "round_double (of_int n / 2) = of_int (n div 2)"
    unfolding h using k by (rule round_double_int)
  moreover have "fl_round (of_int n / 2) = Fin (of_int (n div 2))"
    unfolding h using k by (rule fl_round_small)
  ultimately show ?thesis by (simp add: py_number_def)
qed

lemma coerce_float_number:
  "\<bar>n\<bar> < 2 ^ 53 \<Longrightarrow> coerce_float (py_number b n) = Inr (Fin (of_int n))"
  by (simp add: coerce_float_def to_float_number)

lemma py_mul_number:
  "\<bar>n\<bar> < 2 ^ 53 \<Longrightarrow> py_mul (py_number b n) c = Inr (float_mul (Fin (of_int n)) c)"
  by (simp add: py_mul_def to_float_number)

lemma py_add_floats:
  "numeral j + numeral k < (2 ^ 53 :: int) \<Longrightarrow>
   py_add (PFl (Fin (numeral j))) (PFl (Fin (numeral k))) = Inr (PFl (Fin (numeral j + numeral k)))"
  using fl_round_small [of "numeral j + numeral k"] by simp

lemma py_div2_float:
  "even (numeral k :: int) \<Longrightarrow> numeral k < (2 ^ 53 :: int) \<Longrightarrow>
   py_div2 (PFl (Fin (numeral k))) = Inr (Fin (of_int (numeral k div 2)))"
  using py_div2_number [of "numeral k" False] by (simp add: py_number_def)

subsection \<open>The scenario inputs\<close>

lemma valid_num_one: "valid_num (PFl (Fin 1))"
  using valid_num_int [of 1] by simp

lemma scenario_wf:
  "\<forall>c\<in>set scenario_1d. well_formed c" "\<forall>c\<in>set scenario_4h. well_formed c"
  "\<forall>c\<in>set scenario_1h. well_formed c" "\<forall>c\<in>set scenario_15m. well_formed c"
  by (simp_all add: scenario_1d_def scenario_4h_def scenario_1h_def scenario_15m_def
      well_formed_def valid_num_numeral valid_num_one py_le_def del: valid_num.simps(2))

lemma scenario_nonempty:
  "scenario_1d \<noteq> []" "scenario_4h \<noteq> []" "scenario_15m \<noteq> []" "tie_15m \<noteq> []"
  "skewed_4h \<noteq> []" "above_15m \<noteq> []"
  by (simp_all add: scenario_1d_def scenario_4h_def scenario_15m_def tie_15m_def
      skewed_4h_def above_15m_def)

lemma scenario_float_prices:
  "\<forall>c\<in>set scenario_1d. float_prices c" "\<forall>c\<in>set scenario_4h. float_prices c"
  "\<forall>c\<in>set scenario_15m. float_prices c" "\<forall>c\<in>set tie_15m. float_prices c"
  "\<forall>c\<in>set skewed_4h. float_prices c" "\<forall>c\<in>set above_15m. float_prices c"
  by (simp_all add: scenario_1d_def scenario_4h_def scenario_15m_def tie_15m_def
      skewed_4h_def above_15m_def float_prices_def)

lemma scenario_max: "py_max (map (\<lambda>c. c ! 2) scenario_1d) = Inr (PFl (Fin 110))"
  by (simp add: scenario_1d_def py_max_def)

lemma scenario_min: "py_min (map (\<lambda>c. c ! 3) scenario_1d) = Inr (PFl (Fin 90))"
  by (simp add: scenario_1d_def py_min_def)

lemma scenario_sum: "py_add (PFl (Fin 110)) (PFl (Fin 90)) = Inr (PFl (Fin 200))"
  using py_add_floats [of "num.Bit0 (num.Bit1 (num.Bit1 (num.Bit1 (num.Bit0 (num.Bit1 num.One)))))"
      "num.Bit0 (num.Bit1 (num.Bit0 (num.Bit1 (num.Bit1 (num.Bit0 num.One)))))"]
  by simp

lemma scenario_midline: "py_div2 (PFl (Fin 200)) = Inr (Fin 100)"
  using py_div2_number [of 200 False] by (simp add: py_number_def)

lemma scenario_median: "median ns (map (\<lambda>c. c ! 4) scenario_4h) = Inr (PFl (Fin 100))"
  by (simp add: scenario_4h_def median_def py_sorted_def fl_round_numeral)

lemma skewed_median: "median ns (map (\<lambda>c. c ! 4) skewed_4h) = Inr (PFl (Fin 100))"
  by (simp add: skewed_4h_def median_def py_sorted_def fl_round_numeral)

lemma py_le_not_lt: "py_le b a \<Longrightarrow> \<not> py_lt a b"
  by (auto simp: py_le_def py_lt_def float_le_def float_lt_def)

lemma well_formedD:
  assumes "well_formed c"
  shows "py_le (c ! 3) (c ! 2)" "valid_num (c ! 2)" "valid_num (c ! 3)"
    "\<not> is_nan (c ! 2)" "\<not> is_nan (c ! 3)"
proof -
  show le: "py_le (c ! 3) (c ! 2)" using assms by (simp add: well_formed_def)
  have "c ! 2 \<in> set c" "c ! 3 \<in> set c" using assms by (simp_all add: well_formed_def)
  then show "valid_num (c ! 2)" "valid_num (c ! 3)"
    using assms by (simp_all add: well_formed_def list_all_iff)
  show "\<not> is_nan (c ! 2)" "\<not> is_nan (c ! 3)" using le py_le_not_nan by blast+
qed

lemma median_Inr_spec:
  assumes "median ns xs = Inr med" "\<forall>x\<in>set xs. \<not> is_nan x"
  shows "\<exists>srt. mset srt = mset xs \<and> sorted_wrt py_le srt
           \<and> (odd (length srt) \<longrightarrow> med = srt ! (length srt div 2))
           \<and> (even (length srt) \<longrightarrow>
                (\<exists>t f. py_add (srt ! (length srt div 2 - 1)) (srt ! (length srt div 2)) = Inr t
                   \<and> py_div2 t = Inr f \<and> med = PFl f))"
proof -
  define d where "d = py_sorted ns xs"
  have p: "mset d = mset xs" "sorted_wrt py_le d"
    unfolding d_def using assms(2) by (rule py_sorted_props)+
  have m: "(if length d = 0 then Inl StatisticsError
            else if length d mod 2 = 1 then Inr (d ! (length d div 2))
            else py_bind (py_add (d ! (length d div 2 - 1)) (d ! (length d div 2))) (\<lambda>s.
                 py_bind (py_div2 s) (\<lambda>m. Inr (PFl m)))) = Inr med"
    using assms(1) unfolding median_def d_def [symmetric] Let_def .
  have o: "odd (length d) \<longrightarrow> med = d ! (length d div 2)"
  proof
    assume "odd (length d)"
    then have "length d mod 2 = 1" "length d \<noteq> 0" by (auto simp: odd_iff_mod_2_eq_one)
    then show "med = d ! (length d div 2)" using m by simp
  qed
  have e: "even (length d) \<longrightarrow>
             (\<exists>t f. py_add (d ! (length d div 2 - 1)) (d ! (length d div 2)) = Inr t
                \<and> py_div2 t = Inr f \<and> med = PFl f)"
  proof
    assume ev: "even (length d)"
    then have n1: "length d mod 2 \<noteq> 1" by presburger
    have "length d \<noteq> 0" using m by (auto split: if_splits)
    then have "py_bind (py_add (d ! (length d div 2 - 1)) (d ! (length d div 2))) (\<lambda>s.
                 py_bind (py_div2 s) (\<lambda>m. Inr (PFl m))) = Inr med"
      using m n1 by simp
    then show "\<exists>t f. py_add (d ! (length d div 2 - 1)) (d ! (length d div 2)) = Inr t
                \<and> py_div2 t = Inr f \<and> med = PFl f"
      by (auto simp: py_bind_Inr_iff)
  qed
  show ?thesis using p o e by blast
qed

subsection \<open>Claims about the structure detector\<close>

text \<open>Claim C1, as amended. For well-formed candle sequences with a non-empty daily
  sequence, whenever the detector returns, the swing high of the daily context is a
  daily high that no daily high exceeds, the swing low is a daily low that no daily low
  is below, each converted to float, and the midline is the float that
  \<^verbatim>\<open>(swing_high + swing_low) / 2\<close> evaluates to; swing low \<open>\<le>\<close> midline \<open>\<le>\<close> swing high
  holds whenever that midline is finite. The detector returns when the 4-hour and
  15-minute sequences are non-empty as well and the highs, lows and closes are finite
  floats.\<close>

theorem swing_order:
  assumes "\<forall>c\<in>set ohlcv_1d. well_formed c" "\<forall>c\<in>set ohlcv_4h. well_formed c"
    and "\<forall>c\<in>set ohlcv_1h. well_formed c" "\<forall>c\<in>set ohlcv_15m. well_formed c"
    and "ohlcv_1d \<noteq> []"
  shows "(\<forall>tfs. detect_structure_and_liquidity ns ohlcv_1d ohlcv_4h ohlcv_1h ohlcv_15m = Inr tfs \<longrightarrow>
           (\<exists>tf sh sl shf slf s M. tfs ''1D'' = Some tf
              \<and> sh \<in> (\<lambda>c. c ! 2) ` set ohlcv_1d \<and> (\<forall>c\<in>set ohlcv_1d. py_le (c ! 2) sh)
              \<and> sl \<in> (\<lambda>c. c ! 3) ` set ohlcv_1d \<and> (\<forall>c\<in>set ohlcv_1d. py_le sl (c ! 3))
              \<and> to_float sh = Inr shf \<and> swing_high tf = Some shf
              \<and> to_float sl = Inr slf \<and> swing_low tf = Some slf
              \<and> py_add sh sl = Inr s \<and> py_div2 s = Inr M \<and> midline_50 tf = Some M
              \<and> (is_finite M \<longrightarrow> float_le slf M \<and> float_le M shf)))
       \<and> (ohlcv_4h \<noteq> [] \<and> ohlcv_15m \<noteq> []
            \<and> (\<forall>c\<in>set ohlcv_1d. float_prices c) \<and> (\<forall>c\<in>set ohlcv_4h. float_prices c)
            \<and> (\<forall>c\<in>set ohlcv_15m. float_prices c) \<longrightarrow>
           (\<exists>tfs. detect_structure_and_liquidity ns ohlcv_1d ohlcv_4h ohlcv_1h ohlcv_15m = Inr tfs))"
proof (intro conjI allI impI)
  fix tfs
  assume ret: "detect_structure_and_liquidity ns ohlcv_1d ohlcv_4h ohlcv_1h ohlcv_15m = Inr tfs"
  from detect_Inr_values [OF ret] obtain sh sl s M med shf slf lf where v:
    "py_max (map (\<lambda>c. c ! 2) ohlcv_1d) = Inr sh" "py_min (map (\<lambda>c. c ! 3) ohlcv_1d) = Inr sl"
    "py_add sh sl = Inr s" "py_div2 s = Inr M"
    "median ns (map (\<lambda>c. c ! 4) ohlcv_4h) = Inr med"
    "to_float sh = Inr shf" "to_float sl = Inr slf" "to_float (last ohlcv_15m ! 4) = Inr lf"
    by blast
  note ctx = detect_Inr_contexts(1) [OF ret v]
  have hi: "sh \<in> set (map (\<lambda>c. c ! 2) ohlcv_1d) \<and> (\<forall>x\<in>set (map (\<lambda>c. c ! 2) ohlcv_1d). py_le x sh)"
    using v(1) assms(1) well_formedD(4) by (intro py_max_props) auto
  have lo: "sl \<in> set (map (\<lambda>c. c ! 3) ohlcv_1d) \<and> (\<forall>x\<in>set (map (\<lambda>c. c ! 3) ohlcv_1d). py_le sl x)"
    using v(2) assms(1) well_formedD(5) by (intro py_min_props) auto
  obtain c where c: "c \<in> set ohlcv_1d" using assms(5) by (cases ohlcv_1d) auto
  have "py_le sl (c ! 3)" "py_le (c ! 3) (c ! 2)" "py_le (c ! 2) sh"
    using c hi lo assms(1) well_formedD(1) by auto
  then have le: "py_le sl sh" using py_le_trans by blast
  have vh: "valid_num sh" using hi assms(1) well_formedD(2) by auto
  have vl: "valid_num sl" using lo assms(1) well_formedD(3) by auto
  have btw: "is_finite M \<longrightarrow> float_le slf M \<and> float_le M shf"
  proof
    assume "is_finite M"
    then obtain m where "M = Fin m" by (cases M) simp_all
    then show "float_le slf M \<and> float_le M shf"
      using midline_between [OF le vh vl v(3) _ v(6) v(7)] v(4) by simp
  qed
  show "\<exists>tf sh sl shf slf s M. tfs ''1D'' = Some tf
              \<and> sh \<in> (\<lambda>c. c ! 2) ` set ohlcv_1d \<and> (\<forall>c\<in>set ohlcv_1d. py_le (c ! 2) sh)
              \<and> sl \<in> (\<lambda>c. c ! 3) ` set ohlcv_1d \<and> (\<forall>c\<in>set ohlcv_1d. py_le sl (c ! 3))
              \<and> to_float sh = Inr shf \<and> swing_high tf = Some shf
              \<and> to_float sl = Inr slf \<and> swing_low tf = Some slf
              \<and> py_add sh sl = Inr s \<and> py_div2 s = Inr M \<and> midline_50 tf = Some M
              \<and> (is_finite M \<longrightarrow> float_le slf M \<and> float_le M shf)"
    using ctx hi lo v btw by auto
next
  assume a: "ohlcv_4h \<noteq> [] \<and> ohlcv_15m \<noteq> []
            \<and> (\<forall>c\<in>set ohlcv_1d. float_prices c) \<and> (\<forall>c\<in>set ohlcv_4h. float_prices c)
            \<and> (\<forall>c\<in>set ohlcv_15m. float_prices c)"
  then have "float_prices (last ohlcv_15m)" by simp
  then show "\<exists>tfs. detect_structure_and_liquidity ns ohlcv_1d ohlcv_4h ohlcv_1h ohlcv_15m = Inr tfs"
    using a assms(5) by (intro detect_returns) simp_all
qed

lemma scenario_contexts:
  assumes "detect_structure_and_liquidity ns scenario_1d h4 h1 m15 = Inr tfs"
    and "median ns (map (\<lambda>c. c ! 4) h4) = Inr med"
    and "last m15 ! 4 = PFl (Fin l)"
  shows "tfs ''1D'' =
             Some \<lparr>bias = Some (if l < 100 then ''discount_LONG'' else ''premium_SHORT''),
                   trend = Some (if py_lt med (PFl (Fin l))
                                 then ''bullish_HH_HL'' else ''bearish_LH_LL''),
                   bos = Some (if py_lt med (PFl (Fin l)) then ''up'' else ''down''),
                   swing_high = Some (Fin 110), swing_low = Some (Fin 90),
                   midline_50 = Some (Fin 100),
                   ob_zones = [], fvg_zones = [], micro_liquidity = [],
                   current_price = Some (Fin l)\<rparr>"
proof -
  have "to_float (last m15 ! 4) = Inr (Fin l)" using assms(3) by simp
  from detect_Inr_contexts(1) [OF assms(1) scenario_max scenario_min scenario_sum
      scenario_midline assms(2) _ _ this]
  show ?thesis using assms(3) by simp
qed

theorem swing_order_witness:
  "list_all well_formed scenario_1d \<and> list_all well_formed scenario_4h
   \<and> list_all well_formed scenario_1h \<and> list_all well_formed scenario_15m
   \<and> scenario_1d \<noteq> [] \<and> scenario_4h \<noteq> [] \<and> scenario_15m \<noteq> []
   \<and> (\<exists>tfs tf. detect_structure_and_liquidity keep_order scenario_1d scenario_4h scenario_1h
                  scenario_15m = Inr tfs
        \<and> tfs ''1D'' = Some tf \<and> swing_low tf = Some (Fin 90)
        \<and> midline_50 tf = Some (Fin 100) \<and> swing_high tf = Some (Fin 110)
        \<and> float_le (Fin 90) (Fin 100) \<and> float_le (Fin 100) (Fin 110))"
proof -
  note so = swing_order [OF scenario_wf scenario_nonempty(1), of keep_order]
  from so scenario_nonempty scenario_float_prices obtain tfs where
    ret: "detect_structure_and_liquidity keep_order scenario_1d scenario_4h scenario_1h
            scenario_15m = Inr tfs"
    by blast
  from so ret obtain tf shf slf M where tf: "tfs ''1D'' = Some tf"
    "swing_high tf = Some shf" "swing_low tf = Some slf" "midline_50 tf = Some M"
    "is_finite M \<longrightarrow> float_le slf M \<and> float_le M shf"
    by blast
  have "last scenario_15m ! 4 = PFl (Fin 97)" by (simp add: scenario_15m_def)
  from scenario_contexts [OF ret scenario_median this] tf
  have "shf = Fin 110" "slf = Fin 90" "M = Fin 100" by auto
  then show ?thesis
    using tf ret scenario_wf scenario_nonempty by (auto simp: list_all_iff)
qed

lemma overflow_wf: "\<forall>c\<in>set overflow_1d. well_formed c"
proof -
  have "round_double (2 ^ 1023) = 2 ^ 1023" by (rule round_double_pow2)
  moreover have "\<bar>2 ^ 1023 :: real\<bar> < overflow_at" by (simp add: overflow_at_def)
  ultimately have "valid_num (PFl (Fin (2 ^ 1023)))" by simp
  then show ?thesis
    by (simp add: overflow_1d_def well_formed_def valid_num_one py_le_def
        del: valid_num.simps(2))
qed

text \<open>Claim C1 as stated fails: on one well-formed daily candle whose high and low
  are both the float \<open>2 ^ 1023\<close>, the sum of swing high and swing low overflows, and the
  midline is \<^verbatim>\<open>inf\<close>, above the swing high.\<close>

theorem swing_order_overflow:
  "list_all well_formed overflow_1d \<and> list_all well_formed scenario_4h
   \<and> list_all well_formed scenario_1h \<and> list_all well_formed scenario_15m
   \<and> overflow_1d \<noteq> []
   \<and> (\<exists>tfs tf. detect_structure_and_liquidity keep_order overflow_1d scenario_4h scenario_1h
                  scenario_15m = Inr tfs
        \<and> tfs ''1D'' = Some tf \<and> swing_low tf = Some (Fin (2 ^ 1023))
        \<and> swing_high tf = Some (Fin (2 ^ 1023)) \<and> midline_50 tf = Some PosInf
        \<and> \<not> float_le PosInf (Fin (2 ^ 1023)))"
proof -
  have ne: "overflow_1d \<noteq> []" by (simp add: overflow_1d_def)
  have fp: "\<forall>c\<in>set overflow_1d. float_prices c"
    by (simp add: overflow_1d_def float_prices_def)
  have "float_prices (last scenario_15m)"
    using scenario_float_prices(3) scenario_nonempty(3) by simp
  then obtain tfs where
    ret: "detect_structure_and_liquidity keep_order overflow_1d scenario_4h scenario_1h
            scenario_15m = Inr tfs"
    using detect_returns [of scenario_15m overflow_1d scenario_4h keep_order scenario_1h]
      ne fp scenario_nonempty scenario_float_prices by blast
  have mx: "py_max (map (\<lambda>c. c ! 2) overflow_1d) = Inr (PFl (Fin (2 ^ 1023)))"
    by (simp add: overflow_1d_def py_max_def)
  have mn: "py_min (map (\<lambda>c. c ! 3) overflow_1d) = Inr (PFl (Fin (2 ^ 1023)))"
    by (simp add: overflow_1d_def py_min_def)
  have "fl_round (2 ^ 1023 + 2 ^ 1023) = PosInf"
    by (simp add: fl_round_def overflow_at_def)
  then have ad: "py_add (PFl (Fin (2 ^ 1023))) (PFl (Fin (2 ^ 1023))) = Inr (PFl PosInf)"
    by simp
  have dv: "py_div2 (PFl PosInf) = Inr PosInf" by simp
  have l: "to_float (last scenario_15m ! 4) = Inr (Fin 97)" by (simp add: scenario_15m_def)
  from detect_Inr_contexts(1) [OF ret mx mn ad dv scenario_median _ _ l]
  have "\<exists>tf. tfs ''1D'' = Some tf \<and> swing_low tf = Some (Fin (2 ^ 1023))
        \<and> swing_high tf = Some (Fin (2 ^ 1023)) \<and> midline_50 tf = Some PosInf"
    by simp
  moreover have "\<not> float_le PosInf (Fin (2 ^ 1023))" by (simp add: float_le_def)
  ultimately show ?thesis
    using ret ne overflow_wf scenario_wf by (auto simp: list_all_iff)
qed

text \<open>Claim C2. With non-empty 15-minute and daily sequences, whenever the detector
  returns, the midline of the daily context is the float the code computes from the
  maximum of the daily highs and the minimum of the daily lows, and the bias is
  \<open>discount_LONG\<close> exactly when the latest price (the close of the last 15-minute
  candle) is strictly below that midline, and \<open>premium_SHORT\<close> otherwise; equal values
  give \<open>premium_SHORT\<close>. The detector returns when the 4-hour sequence is non-empty too
  and the highs, lows and closes are finite floats.\<close>

theorem bias_rule:
  assumes "ohlcv_15m \<noteq> []" "ohlcv_1d \<noteq> []"
  shows "(\<forall>tfs. detect_structure_and_liquidity ns ohlcv_1d ohlcv_4h ohlcv_1h ohlcv_15m = Inr tfs \<longrightarrow>
           (\<exists>tf sh sl s M. tfs ''1D'' = Some tf
              \<and> py_max (map (\<lambda>c. c ! 2) ohlcv_1d) = Inr sh
              \<and> py_min (map (\<lambda>c. c ! 3) ohlcv_1d) = Inr sl
              \<and> py_add sh sl = Inr s \<and> py_div2 s = Inr M \<and> midline_50 tf = Some M
              \<and> bias tf = Some (if py_lt (last ohlcv_15m ! 4) (PFl M)
                                then ''discount_LONG'' else ''premium_SHORT'')
              \<and> (py_le (last ohlcv_15m ! 4) (PFl M) \<and> py_le (PFl M) (last ohlcv_15m ! 4)
                   \<longrightarrow> bias tf = Some ''premium_SHORT'')))
       \<and> (ohlcv_4h \<noteq> []
            \<and> (\<forall>c\<in>set ohlcv_1d. float_prices c) \<and> (\<forall>c\<in>set ohlcv_4h. float_prices c)
            \<and> (\<forall>c\<in>set ohlcv_15m. float_prices c) \<longrightarrow>
           (\<exists>tfs. detect_structure_and_liquidity ns ohlcv_1d ohlcv_4h ohlcv_1h ohlcv_15m = Inr tfs))"
proof (intro conjI allI impI)
  fix tfs
  assume ret: "detect_structure_and_liquidity ns ohlcv_1d ohlcv_4h ohlcv_1h ohlcv_15m = Inr tfs"
  from detect_Inr_values [OF ret] obtain sh sl s M med shf slf lf where v:
    "py_max (map (\<lambda>c. c ! 2) ohlcv_1d) = Inr sh" "py_min (map (\<lambda>c. c ! 3) ohlcv_1d) = Inr sl"
    "py_add sh sl = Inr s" "py_div2 s = Inr M"
    "median ns (map (\<lambda>c. c ! 4) ohlcv_4h) = Inr med"
    "to_float sh = Inr shf" "to_float sl = Inr slf" "to_float (last ohlcv_15m ! 4) = Inr lf"
    by blast
  note ctx = detect_Inr_contexts(1) [OF ret v]
  show "\<exists>tf sh sl s M. tfs ''1D'' = Some tf
              \<and> py_max (map (\<lambda>c. c ! 2) ohlcv_1d) = Inr sh
              \<and> py_min (map (\<lambda>c. c ! 3) ohlcv_1d) = Inr sl
              \<and> py_add sh sl = Inr s \<and> py_div2 s = Inr M \<and> midline_50 tf = Some M
              \<and> bias tf = Some (if py_lt (last ohlcv_15m ! 4) (PFl M)
                                then ''discount_LONG'' else ''premium_SHORT'')
              \<and> (py_le (last ohlcv_15m ! 4) (PFl M) \<and> py_le (PFl M) (last ohlcv_15m ! 4)
                   \<longrightarrow> bias tf = Some ''premium_SHORT'')"
    using ctx v py_le_not_lt [of "PFl M" "last ohlcv_15m ! 4"] by auto
next
  assume a: "ohlcv_4h \<noteq> []
            \<and> (\<forall>c\<in>set ohlcv_1d. float_prices c) \<and> (\<forall>c\<in>set ohlcv_4h. float_prices c)
            \<and> (\<forall>c\<in>set ohlcv_15m. float_prices c)"
  then have "float_prices (last ohlcv_15m)" using assms(1) by simp
  then show "\<exists>tfs. detect_structure_and_liquidity ns ohlcv_1d ohlcv_4h ohlcv_1h ohlcv_15m = Inr tfs"
    using a assms by (intro detect_returns) simp_all
qed

theorem bias_rule_witness:
  "tie_15m \<noteq> [] \<and> scenario_1d \<noteq> []
   \<and> (\<exists>tfs tf. detect_structure_and_liquidity keep_order scenario_1d scenario_4h scenario_1h
                  tie_15m = Inr tfs
         \<and> tfs ''1D'' = Some tf \<and> current_price tf = Some (Fin 100)
         \<and> midline_50 tf = Some (Fin 100) \<and> bias tf = Some ''premium_SHORT'')"
proof -
  note br = bias_rule [OF scenario_nonempty(4) scenario_nonempty(1),
      of keep_order scenario_4h scenario_1h]
  from br scenario_nonempty scenario_float_prices obtain tfs where
    ret: "detect_structure_and_liquidity keep_order scenario_1d scenario_4h scenario_1h
            tie_15m = Inr tfs"
    by blast
  from br ret obtain tf M where tf: "tfs ''1D'' = Some tf" "midline_50 tf = Some M"
    "py_le (last tie_15m ! 4) (PFl M) \<and> py_le (PFl M) (last tie_15m ! 4)
       \<longrightarrow> bias tf = Some ''premium_SHORT''"
    by blast
  have l: "last tie_15m ! 4 = PFl (Fin 100)" by (simp add: tie_15m_def)
  from scenario_contexts [OF ret scenario_median l] tf
  have "M = Fin 100" "current_price tf = Some (Fin 100)" by auto
  then show ?thesis
    using tf ret l scenario_nonempty by (auto simp: py_le_def)
qed

text \<open>Claim C3. With non-empty 15-minute and 4-hour sequences, whenever the detector
  returns, the trend is \<open>bullish_HH_HL\<close> exactly when the latest price is strictly above
  the median that \<^verbatim>\<open>statistics.median\<close> gives for the 4-hour closes, and
  \<open>bearish_LH_LL\<close> otherwise; equal values give \<open>bearish_LH_LL\<close>. When no close is NaN,
  that median is the statistical one: the middle item of the closes in ascending order
  when their count is odd, and the float \<^verbatim>\<open>(a + b) / 2\<close> of the two middle items
  when it is even. The detector returns when the daily sequence is non-empty too and the
  highs, lows and closes are finite floats.\<close>

theorem trend_rule:
  assumes "ohlcv_15m \<noteq> []" "ohlcv_4h \<noteq> []"
  shows "(\<forall>tfs. detect_structure_and_liquidity ns ohlcv_1d ohlcv_4h ohlcv_1h ohlcv_15m = Inr tfs \<longrightarrow>
           (\<exists>tf med. tfs ''1D'' = Some tf
              \<and> median ns (map (\<lambda>c. c ! 4) ohlcv_4h) = Inr med
              \<and> trend tf = Some (if py_lt med (last ohlcv_15m ! 4)
                                 then ''bullish_HH_HL'' else ''bearish_LH_LL'')
              \<and> (py_le med (last ohlcv_15m ! 4) \<and> py_le (last ohlcv_15m ! 4) med
                   \<longrightarrow> trend tf = Some ''bearish_LH_LL'')
              \<and> ((\<forall>c\<in>set ohlcv_4h. \<not> is_nan (c ! 4)) \<longrightarrow>
                   (\<exists>srt. mset srt = mset (map (\<lambda>c. c ! 4) ohlcv_4h) \<and> sorted_wrt py_le srt
                      \<and> (odd (length srt) \<longrightarrow> med = srt ! (length srt div 2))
                      \<and> (even (length srt) \<longrightarrow>
                           (\<exists>t f. py_add (srt ! (length srt div 2 - 1)) (srt ! (length srt div 2))
                                    = Inr t
                              \<and> py_div2 t = Inr f \<and> med = PFl f))))))
       \<and> (ohlcv_1d \<noteq> []
            \<and> (\<forall>c\<in>set ohlcv_1d. float_prices c) \<and> (\<forall>c\<in>set ohlcv_4h. float_prices c)
            \<and> (\<forall>c\<in>set ohlcv_15m. float_prices c) \<longrightarrow>
           (\<exists>tfs. detect_structure_and_liquidity ns ohlcv_1d ohlcv_4h ohlcv_1h ohlcv_15m = Inr tfs))"
proof (intro conjI allI impI)
  fix tfs
  assume ret: "detect_structure_and_liquidity ns ohlcv_1d ohlcv_4h ohlcv_1h ohlcv_15m = Inr tfs"
  from detect_Inr_values [OF ret] obtain sh sl s M med shf slf lf where v:
    "py_max (map (\<lambda>c. c ! 2) ohlcv_1d) = Inr sh" "py_min (map (\<lambda>c. c ! 3) ohlcv_1d) = Inr sl"
    "py_add sh sl = Inr s" "py_div2 s = Inr M"
    "median ns (map (\<lambda>c. c ! 4) ohlcv_4h) = Inr med"
    "to_float sh = Inr shf" "to_float sl = Inr slf" "to_float (last ohlcv_15m ! 4) = Inr lf"
    by blast
  note ctx = detect_Inr_contexts(1) [OF ret v]
  have srt: "(\<forall>c\<in>set ohlcv_4h. \<not> is_nan (c ! 4)) \<longrightarrow>
       (\<exists>srt. mset srt = mset (map (\<lambda>c. c ! 4) ohlcv_4h) \<and> sorted_wrt py_le srt
          \<and> (odd (length srt) \<longrightarrow> med = srt ! (length srt div 2))
          \<and> (even (length srt) \<longrightarrow>
               (\<exists>t f. py_add (srt ! (length srt div 2 - 1)) (srt ! (length srt div 2))
                        = Inr t
                  \<and> py_div2 t = Inr f \<and> med = PFl f)))"
  proof
    assume "\<forall>c\<in>set ohlcv_4h. \<not> is_nan (c ! 4)"
    then have "\<forall>x\<in>set (map (\<lambda>c. c ! 4) ohlcv_4h). \<not> is_nan x" by simp
    from median_Inr_spec [OF v(5) this]
    show "\<exists>srt. mset srt = mset (map (\<lambda>c. c ! 4) ohlcv_4h) \<and> sorted_wrt py_le srt
          \<and> (odd (length srt) \<longrightarrow> med = srt ! (length srt div 2))
          \<and> (even (length srt) \<longrightarrow>
               (\<exists>t f. py_add (srt ! (length srt div 2 - 1)) (srt ! (length srt div 2))
                        = Inr t
                  \<and> py_div2 t = Inr f \<and> med = PFl f))" .
  qed
  have tr: "trend (the (tfs ''1D'')) = Some (if py_lt med (last ohlcv_15m ! 4)
                                 then ''bullish_HH_HL'' else ''bearish_LH_LL'')"
    using ctx by simp
  have tie: "py_le med (last ohlcv_15m ! 4) \<and> py_le (last ohlcv_15m ! 4) med
                   \<longrightarrow> trend (the (tfs ''1D'')) = Some ''bearish_LH_LL''"
    using tr py_le_not_lt [of "last ohlcv_15m ! 4" med] by auto
  have "\<exists>tf. tfs ''1D'' = Some tf" using ctx by simp
  then obtain tf where tf: "tfs ''1D'' = Some tf" by blast
  show "\<exists>tf med. tfs ''1D'' = Some tf
              \<and> median ns (map (\<lambda>c. c ! 4) ohlcv_4h) = Inr med
              \<and> trend tf = Some (if py_lt med (last ohlcv_15m ! 4)
                                 then ''bullish_HH_HL'' else ''bearish_LH_LL'')
              \<and> (py_le med (last ohlcv_15m ! 4) \<and> py_le (last ohlcv_15m ! 4) med
                   \<longrightarrow> trend tf = Some ''bearish_LH_LL'')
              \<and> ((\<forall>c\<in>set ohlcv_4h. \<not> is_nan (c ! 4)) \<longrightarrow>
                   (\<exists>srt. mset srt = mset (map (\<lambda>c. c ! 4) ohlcv_4h) \<and> sorted_wrt py_le srt
                      \<and> (odd (length srt) \<longrightarrow> med = srt ! (length srt div 2))
                      \<and> (even (length srt) \<longrightarrow>
                           (\<exists>t f. py_add (srt ! (length srt div 2 - 1)) (srt ! (length srt div 2))
                                    = Inr t
                              \<and> py_div2 t = Inr f \<and> med = PFl f))))"
    apply (rule exI [of _ tf], rule exI [of _ med])
    using tf v(5) srt tr tie by simp
next
  assume a: "ohlcv_1d \<noteq> []
            \<and> (\<forall>c\<in>set ohlcv_1d. float_prices c) \<and> (\<forall>c\<in>set ohlcv_4h. float_prices c)
            \<and> (\<forall>c\<in>set ohlcv_15m. float_prices c)"
  then have "float_prices (last ohlcv_15m)" using assms(1) by simp
  then show "\<exists>tfs. detect_structure_and_liquidity ns ohlcv_1d ohlcv_4h ohlcv_1h ohlcv_15m = Inr tfs"
    using a assms by (intro detect_returns) simp_all
qed

lemma skewed_no_nan: "\<forall>c\<in>set skewed_4h. \<not> is_nan (c ! 4)"
  by (simp add: skewed_4h_def)

theorem trend_rule_witness:
  "tie_15m \<noteq> [] \<and> above_15m \<noteq> [] \<and> skewed_4h \<noteq> []
   \<and> list_all (\<lambda>c. \<not> is_nan (c ! 4)) skewed_4h
   \<and> median keep_order (map (\<lambda>c. c ! 4) skewed_4h) = Inr (PFl (Fin 100))
   \<and> (\<exists>tfs tf. detect_structure_and_liquidity keep_order scenario_1d skewed_4h scenario_1h
                  tie_15m = Inr tfs
         \<and> tfs ''1D'' = Some tf \<and> current_price tf = Some (Fin 100)
         \<and> trend tf = Some ''bearish_LH_LL'')
   \<and> (\<exists>tfs tf. detect_structure_and_liquidity keep_order scenario_1d skewed_4h scenario_1h
                  above_15m = Inr tfs
         \<and> tfs ''1D'' = Some tf \<and> current_price tf = Some (Fin 105)
         \<and> trend tf = Some ''bullish_HH_HL'')"
proof -
  note t1 = trend_rule [OF scenario_nonempty(4) scenario_nonempty(5),
      of keep_order scenario_1d scenario_1h]
  note t2 = trend_rule [OF scenario_nonempty(6) scenario_nonempty(5),
      of keep_order scenario_1d scenario_1h]
  from t1 scenario_nonempty scenario_float_prices obtain tfs1 where
    r1: "detect_structure_and_liquidity keep_order scenario_1d skewed_4h scenario_1h
            tie_15m = Inr tfs1"
    by blast
  from t2 scenario_nonempty scenario_float_prices obtain tfs2 where
    r2: "detect_structure_and_liquidity keep_order scenario_1d skewed_4h scenario_1h
            above_15m = Inr tfs2"
    by blast
  have l1: "last tie_15m ! 4 = PFl (Fin 100)" by (simp add: tie_15m_def)
  have l2: "last above_15m ! 4 = PFl (Fin 105)" by (simp add: above_15m_def)
  have a: "\<exists>tf. tfs1 ''1D'' = Some tf \<and> current_price tf = Some (Fin 100)
         \<and> trend tf = Some ''bearish_LH_LL''"
    using scenario_contexts [OF r1 skewed_median l1] by simp
  have b: "\<exists>tf. tfs2 ''1D'' = Some tf \<and> current_price tf = Some (Fin 105)
         \<and> trend tf = Some ''bullish_HH_HL''"
    using scenario_contexts [OF r2 skewed_median l2] by simp
  show ?thesis
    using a b r1 r2 scenario_nonempty skewed_no_nan skewed_median
    by (simp add: list_all_iff)
qed

text \<open>Claim C4. Whenever the detector returns, the result has the four contexts
  \<open>1D\<close>, \<open>4H\<close>, \<open>1H\<close> and \<open>15m\<close>; the trend is one of the two labels; the four
  \<open>bos\<close> fields are equal, and their value is a function of the trend alone: \<open>up\<close> for
  \<open>bullish_HH_HL\<close>, \<open>down\<close> for \<open>bearish_LH_LL\<close>.\<close>

theorem bos_from_trend:
  assumes "detect_structure_and_liquidity ns ohlcv_1d ohlcv_4h ohlcv_1h ohlcv_15m = Inr tfs"
  shows "\<exists>tf_1d tf_4h tf_1h tf_15m.
           tfs ''1D'' = Some tf_1d \<and> tfs ''4H'' = Some tf_4h
         \<and> tfs ''1H'' = Some tf_1h \<and> tfs ''15m'' = Some tf_15m
         \<and> (trend tf_1d = Some ''bullish_HH_HL'' \<or> trend tf_1d = Some ''bearish_LH_LL'')
         \<and> bos tf_1d = Some (if trend tf_1d = Some ''bullish_HH_HL'' then ''up'' else ''down'')
         \<and> bos tf_4h = bos tf_1d \<and> bos tf_1h = bos tf_1d \<and> bos tf_15m = bos tf_1d"
proof -
  from detect_Inr_values [OF assms] obtain sh sl s M med shf slf lf where v:
    "py_max (map (\<lambda>c. c ! 2) ohlcv_1d) = Inr sh" "py_min (map (\<lambda>c. c ! 3) ohlcv_1d) = Inr sl"
    "py_add sh sl = Inr s" "py_div2 s = Inr M"
    "median ns (map (\<lambda>c. c ! 4) ohlcv_4h) = Inr med"
    "to_float sh = Inr shf" "to_float sl = Inr slf" "to_float (last ohlcv_15m ! 4) = Inr lf"
    by blast
  note ctx = detect_Inr_contexts [OF assms v]
  from ctx(2) obtain tf_4h where h4: "tfs ''4H'' = Some tf_4h"
    "bos tf_4h = Some (if py_lt med (last ohlcv_15m ! 4) then ''up'' else ''down'')" by blast
  from ctx(3) obtain tf_1h where h1: "tfs ''1H'' = Some tf_1h"
    "bos tf_1h = Some (if py_lt med (last ohlcv_15m ! 4) then ''up'' else ''down'')" by blast
  from ctx(4) obtain tf_15m where m15: "tfs ''15m'' = Some tf_15m"
    "bos tf_15m = Some (if py_lt med (last ohlcv_15m ! 4) then ''up'' else ''down'')" by blast
  show ?thesis using ctx(1) h4 h1 m15 by simp
qed

lemma scenario_returns:
  "\<exists>tfs. detect_structure_and_liquidity keep_order scenario_1d scenario_4h scenario_1h
            scenario_15m = Inr tfs"
proof -
  have "float_prices (last scenario_15m)"
    using scenario_float_prices(3) scenario_nonempty(3) by simp
  then show ?thesis
    using scenario_nonempty scenario_float_prices by (intro detect_returns) simp_all
qed

theorem bos_from_trend_witness:
  "\<exists>tfs. detect_structure_and_liquidity keep_order scenario_1d scenario_4h scenario_1h
            scenario_15m = Inr tfs
     \<and> (\<exists>tf_1d tf_4h tf_1h tf_15m.
           tfs ''1D'' = Some tf_1d \<and> tfs ''4H'' = Some tf_4h
         \<and> tfs ''1H'' = Some tf_1h \<and> tfs ''15m'' = Some tf_15m
         \<and> (trend tf_1d = Some ''bullish_HH_HL'' \<or> trend tf_1d = Some ''bearish_LH_LL'')
         \<and> bos tf_1d = Some (if trend tf_1d = Some ''bullish_HH_HL'' then ''up'' else ''down'')
         \<and> bos tf_4h = bos tf_1d \<and> bos tf_1h = bos tf_1d \<and> bos tf_15m = bos tf_1d)"
proof -
  obtain tfs where
    ret: "detect_structure_and_liquidity keep_order scenario_1d scenario_4h scenario_1h
            scenario_15m = Inr tfs"
    using scenario_returns by blast
  show ?thesis using ret bos_from_trend [OF ret] by blast
qed

text \<open>Claim C10. Whenever the detector returns, the \<open>4H\<close> context and the \<open>1H\<close>
  context each hold exactly one order-block zone, and its type label is \<open>bullish\<close>,
  whatever the trend is: the scenario run, whose trend is \<open>bearish_LH_LL\<close>, has
  them too.\<close>

theorem ob_zone_type_fixed:
  assumes "detect_structure_and_liquidity ns ohlcv_1d ohlcv_4h ohlcv_1h ohlcv_15m = Inr tfs"
  shows "\<exists>tf_4h tf_1h z_4h z_1h.
           tfs ''4H'' = Some tf_4h \<and> tfs ''1H'' = Some tf_1h
         \<and> ob_zones tf_4h = [z_4h] \<and> ob_zones tf_1h = [z_1h]
         \<and> ob_type z_4h = ''bullish'' \<and> ob_type z_1h = ''bullish''"
proof -
  from detect_Inr_values [OF assms] obtain sh sl s M med shf slf lf where v:
    "py_max (map (\<lambda>c. c ! 2) ohlcv_1d) = Inr sh" "py_min (map (\<lambda>c. c ! 3) ohlcv_1d) = Inr sl"
    "py_add sh sl = Inr s" "py_div2 s = Inr M"
    "median ns (map (\<lambda>c. c ! 4) ohlcv_4h) = Inr med"
    "to_float sh = Inr shf" "to_float sl = Inr slf" "to_float (last ohlcv_15m ! 4) = Inr lf"
    by blast
  note ctx = detect_Inr_contexts [OF assms v]
  from ctx(2) ctx(3) show ?thesis by blast
qed

theorem ob_zone_type_fixed_witness:
  "\<exists>tfs. detect_structure_and_liquidity keep_order scenario_1d scenario_4h scenario_1h
            scenario_15m = Inr tfs
     \<and> (\<exists>tf_1d tf_4h tf_1h z_4h z_1h.
           tfs ''1D'' = Some tf_1d \<and> trend tf_1d = Some ''bearish_LH_LL''
         \<and> tfs ''4H'' = Some tf_4h \<and> tfs ''1H'' = Some tf_1h
         \<and> ob_zones tf_4h = [z_4h] \<and> ob_zones tf_1h = [z_1h]
         \<and> ob_type z_4h = ''bullish'' \<and> ob_type z_1h = ''bullish'')"
proof -
  obtain tfs where
    ret: "detect_structure_and_liquidity keep_order scenario_1d scenario_4h scenario_1h
            scenario_15m = Inr tfs"
    using scenario_returns by blast
  have l: "last scenario_15m ! 4 = PFl (Fin 97)" by (simp add: scenario_15m_def)
  have "\<exists>tf_1d. tfs ''1D'' = Some tf_1d \<and> trend tf_1d = Some ''bearish_LH_LL''"
    using scenario_contexts [OF ret scenario_median l] by simp
  then show ?thesis using ret ob_zone_type_fixed [OF ret] by blast
qed

text \<open>Claim C9. On daily candles with highs 100, 110, 105 and lows 90, 95, 92, 4-hour
  closes 98, 102, 99, 101 and a last 15-minute close of 97, each given as an \<^verbatim>\<open>int\<close>
  or as a float, whatever the other positions of the candles, the hourly series and the
  earlier 15-minute candles are: swing high 110, swing low 90, midline 100, 4-hour
  median 100, bias \<open>discount_LONG\<close>, trend \<open>bearish_LH_LL\<close>, and \<open>bos\<close> \<open>down\<close> in all
  four contexts.\<close>

theorem end_to_end_scenario:
  "median ns [py_number b1 98, py_number b2 102, py_number b3 99, py_number b4 101]
     = Inr (PFl (Fin 100))
   \<and> (\<exists>tfs tf_1d tf_4h tf_1h tf_15m.
        detect_structure_and_liquidity ns
          [[t1, o1, py_number i1 100, py_number j1 90, c1, v1],
           [t2, o2, py_number i2 110, py_number j2 95, c2, v2],
           [t3, o3, py_number i3 105, py_number j3 92, c3, v3]]
          [[t4, o4, h4, l4, py_number b1 98, v4], [t5, o5, h5, l5, py_number b2 102, v5],
           [t6, o6, h6, l6, py_number b3 99, v6], [t7, o7, h7, l7, py_number b4 101, v7]]
          ohlcv_1h
          (earlier_15m @ [[t8, o8, h8, l8, py_number b5 97, v8]]) = Inr tfs
      \<and> tfs ''1D'' = Some tf_1d \<and> tfs ''4H'' = Some tf_4h
      \<and> tfs ''1H'' = Some tf_1h \<and> tfs ''15m'' = Some tf_15m
      \<and> swing_high tf_1d = Some (Fin 110) \<and> swing_low tf_1d = Some (Fin 90)
      \<and> midline_50 tf_1d = Some (Fin 100)
      \<and> bias tf_1d = Some ''discount_LONG'' \<and> trend tf_1d = Some ''bearish_LH_LL''
      \<and> bos tf_1d = Some ''down'' \<and> bos tf_4h = Some ''down''
      \<and> bos tf_1h = Some ''down'' \<and> bos tf_15m = Some ''down'')"
proof -
  have m: "median ns [py_number b1 98, py_number b2 102, py_number b3 99, py_number b4 101]
             = Inr (PFl (Fin 100))"
    by (simp add: median_def py_sorted_def py_add_number py_div2_number)
  show ?thesis
    by (simp add: m detect_structure_and_liquidity_def py_index_snoc_last py_index_def
        py_max_def py_min_def py_add_number py_div2_number coerce_float_number py_mul_number
        TimeframeContext_default_def bos_of_def Let_def)
qed

subsection \<open>The cluster loop\<close>

lemma py_float_ok: "float_ok fs j \<Longrightarrow> py_float fs j = Inr (float_val fs j)"
proof (cases j)
  case (JNum x)
  assume "float_ok fs j"
  then show ?thesis using JNum by (cases x) auto
qed auto

lemma py_float_not_ok: "\<not> float_ok fs j \<Longrightarrow> \<exists>e. py_float fs j = Inl e"
proof (cases j)
  case (JNum x)
  assume "\<not> float_ok fs j"
  then show ?thesis using JNum by (cases x) auto
qed auto

lemma make_cluster_skipped:
  assumes "skipped fs e"
  shows "\<exists>err. make_cluster fs e = Inl err"
proof (cases e)
  case (JObj d)
  show ?thesis
  proof (cases "float_ok fs (dict_get d ''price'' (JNum (PInt 0)))")
    case True
    then have "\<not> float_ok fs (dict_get d ''size'' (JNum (PInt 0)))"
      using assms JObj by simp
    then obtain err where "py_float fs (dict_get d ''size'' (JNum (PInt 0))) = Inl err"
      using py_float_not_ok by blast
    then show ?thesis using JObj True by (simp add: Let_def py_float_ok)
  next
    case False
    then obtain err where "py_float fs (dict_get d ''price'' (JNum (PInt 0))) = Inl err"
      using py_float_not_ok by blast
    then show ?thesis using JObj by (simp add: Let_def)
  qed
qed simp_all

lemma make_cluster_kept: "\<not> skipped fs e \<Longrightarrow> make_cluster fs e = Inr (entry_cluster fs e)"
  by (cases e) (auto simp: Let_def py_float_ok)

lemma cluster_loop_eq:
  "cluster_loop fs es acc = acc @ map (entry_cluster fs) (filter (\<lambda>e. \<not> skipped fs e) es)"
proof (induction es arbitrary: acc)
  case Nil
  show ?case by simp
next
  case (Cons e es)
  show ?case
  proof (cases "skipped fs e")
    case True
    then obtain err where "make_cluster fs e = Inl err"
      using make_cluster_skipped by blast
    then show ?thesis using True Cons.IH by simp
  next
    case False
    then show ?thesis using Cons.IH by (simp add: make_cluster_kept)
  qed
qed

lemma is_number_cases: "is_number v \<Longrightarrow> \<exists>x. v = Some (JNum x)"
  by (cases v rule: is_number.cases) simp_all

lemma in_range_float:
  assumes "in_float_range v"
  shows "\<exists>x. v = Some (JNum x) \<and> float_ok fs (JNum x) \<and> float_val fs (JNum x) = number_float v"
  using assms by (cases v rule: in_float_range.cases) simp_all

lemma convertible_not_skipped:
  assumes "convertible_entry e"
  shows "\<not> skipped fs e" "entry_cluster fs e = cluster_of_valid_entry e"
proof -
  obtain d where d: "e = JObj d" using assms by (cases e) simp_all
  obtain p where p: "map_of d ''price'' = Some (JNum p)" "float_ok fs (JNum p)"
    "float_val fs (JNum p) = number_float (map_of d ''price'')"
    using assms d in_range_float [of "map_of d ''price''" fs] by auto
  obtain z where z: "map_of d ''size'' = Some (JNum z)" "float_ok fs (JNum z)"
    "float_val fs (JNum z) = number_float (map_of d ''size'')"
    using assms d in_range_float [of "map_of d ''size''" fs] by auto
  show "\<not> skipped fs e" using d p z by (simp add: dict_get_def)
  have "map_of d ''side'' = Some (JStr ''long'') \<or> map_of d ''side'' = Some (JStr ''short'')"
    using assms d by simp
  then show "entry_cluster fs e = cluster_of_valid_entry e"
    using d p z by (auto simp add: dict_get_def)
qed

lemma fetch_list:
  assumes "client_get (heatmap_url symbol) = Response 200 (Some (JObj body))"
    and "map_of body ''data'' = Some (JArr entries)"
  shows "fetch_coinglass_clusters fs client_get symbol =
           Inr \<lparr>heatmap = \<lparr>N1 = [], N2 = [],
                            N3 = map (entry_cluster fs)
                                   (filter (\<lambda>e. \<not> skipped fs e) (take 3 entries))\<rparr>,
                liquidations = \<lparr>N1 = [], N2 = [], N3 = []\<rparr>\<rparr>"
proof (cases "entries = []")
  case True
  then show ?thesis using assms
    by (simp add: fetch_coinglass_clusters_def heatmap_data_def dict_get_def
        CoinglassLevels_default_def)
next
  case False
  then show ?thesis using assms
    by (simp add: fetch_coinglass_clusters_def heatmap_data_def dict_get_def
        CoinglassLevels_default_def cluster_loop_eq)
qed

lemma served:
  "serve entries (heatmap_url symbol) = Response 200 (Some (JObj [(''data'', JArr entries)]))"
  "map_of [(''data'', JArr entries)] ''data'' = Some (JArr entries)"
  by (simp_all add: serve_def)

lemma big_int_overflows: "\<not> \<bar>of_int (10 ^ 400) :: real\<bar> < overflow_at"
  by (simp add: overflow_at_def)

lemma small_int_float:
  "numeral k < (2 ^ 53 :: int) \<Longrightarrow> \<bar>numeral k :: real\<bar> < overflow_at"
  "numeral k < (2 ^ 53 :: int) \<Longrightarrow> round_double (numeral k) = numeral k"
proof -
  assume a: "numeral k < (2 ^ 53 :: int)"
  then have "\<bar>numeral k :: int\<bar> < 2 ^ 53" by simp
  then have "\<not> overflow_at \<le> \<bar>of_int (numeral k) :: real\<bar>" by (rule int_not_overflow)
  then show "\<bar>numeral k :: real\<bar> < overflow_at" by simp
  show "round_double (numeral k) = numeral k" using a by (rule round_double_numeral)
qed

lemma small_float_below: "numeral k < (2 ^ 53 :: int) \<Longrightarrow> (numeral k :: real) < overflow_at"
  using small_int_float(1) [of k] by simp

lemma zero_one_float: "0 < overflow_at" "1 < overflow_at" "round_double 1 = 1"
proof -
  have "(1::real) < 2 ^ 53" by simp
  then show "1 < overflow_at" "0 < overflow_at" using overflow_at_gt by linarith+
  show "round_double 1 = 1" using round_double_int [of 1] by simp
qed

subsection \<open>Claims about the heatmap cluster fetcher\<close>

text \<open>Claim C5, as amended. When the service answers 200 with an object whose
  \<^verbatim>\<open>data\<close> is a list, the fetcher returns, and its clusters are those of the first
  three entries that are not skipped, in input order. An entry is skipped exactly when
  it is not an object or \<^verbatim>\<open>float\<close> rejects its price or size: \<^verbatim>\<open>None\<close>, a list, an
  object, a string that is not a float literal, or an \<^verbatim>\<open>int\<close> beyond the float range.
  A missing price or size counts as 0 and a side other than \<^verbatim>\<open>short\<close>, or no side,
  gives \<^verbatim>\<open>long\<close>, so such an entry is kept.\<close>

theorem entry_skipping:
  assumes "client_get (heatmap_url symbol) = Response 200 (Some (JObj body))"
    and "map_of body ''data'' = Some (JArr entries)"
  shows "\<exists>r. fetch_coinglass_clusters float_str client_get symbol = Inr r
           \<and> N3 (heatmap r) = map (entry_cluster float_str)
                                 (filter (\<lambda>e. \<not> skipped float_str e) (take 3 entries))"
  using fetch_list [where client_get = client_get and symbol = symbol and fs = float_str,
      OF assms] by simp

theorem entry_skipping_witness:
  "\<exists>r. fetch_coinglass_clusters no_float (serve mixed_entries) ''BTC/USDT'' = Inr r
      \<and> N3 (heatmap r) = [\<lparr>side = ''short'', price = Fin 0, size_usd = Fin 7\<rparr>]"
proof -
  have c: "map (entry_cluster no_float)
             (filter (\<lambda>e. \<not> skipped no_float e) (take 3 mixed_entries))
           = [\<lparr>side = ''short'', price = Fin 0, size_usd = Fin 7\<rparr>]"
    using big_int_overflows
    by (simp add: mixed_entries_def dict_get_def no_float_def small_int_float small_float_below zero_one_float)
  show ?thesis
    using entry_skipping [where client_get = "serve mixed_entries"
        and symbol = "''BTC/USDT''" and float_str = no_float, OF served] c by simp
qed

text \<open>Claim C5 as stated fails: an entry without a price field is not skipped; it
  becomes a cluster of price 0.\<close>

theorem missing_field_not_skipped:
  "map_of [(''side'', JStr ''short''), (''size'', JNum (PInt 7))] ''price'' = None
   \<and> fetch_coinglass_clusters no_float
       (serve [JObj [(''side'', JStr ''short''), (''size'', JNum (PInt 7))]]) ''BTC/USDT''
     = Inr \<lparr>heatmap = \<lparr>N1 = [], N2 = [],
                        N3 = [\<lparr>side = ''short'', price = Fin 0, size_usd = Fin 7\<rparr>]\<rparr>,
            liquidations = \<lparr>N1 = [], N2 = [], N3 = []\<rparr>\<rparr>"
proof -
  have "fetch_coinglass_clusters no_float
       (serve [JObj [(''side'', JStr ''short''), (''size'', JNum (PInt 7))]]) ''BTC/USDT''
     = Inr \<lparr>heatmap = \<lparr>N1 = [], N2 = [],
              N3 = map (entry_cluster no_float) (filter (\<lambda>e. \<not> skipped no_float e)
                     (take 3 [JObj [(''side'', JStr ''short''), (''size'', JNum (PInt 7))]]))\<rparr>,
            liquidations = \<lparr>N1 = [], N2 = [], N3 = []\<rparr>\<rparr>"
    by (rule fetch_list [where client_get
          = "serve [JObj [(''side'', JStr ''short''), (''size'', JNum (PInt 7))]]"
        and symbol = "''BTC/USDT''" and fs = no_float, OF served])
  then show ?thesis
    by (simp add: dict_get_def small_int_float small_float_below zero_one_float)
qed

text \<open>Claim C6. Whenever the heatmap call raises, or answers with a status other than
  200, or answers 200 with a body that does not decode, the fetcher returns, and both
  its heatmap and its liquidations hold no cluster.\<close>

theorem heatmap_failure_empty:
  assumes "client_get (heatmap_url symbol) = Raised
         \<or> (\<exists>status_code body. client_get (heatmap_url symbol) = Response status_code body
                \<and> status_code \<noteq> 200)
         \<or> client_get (heatmap_url symbol) = Response 200 None"
  shows "fetch_coinglass_clusters float_str client_get symbol =
           Inr \<lparr>heatmap = \<lparr>N1 = [], N2 = [], N3 = []\<rparr>,
                liquidations = \<lparr>N1 = [], N2 = [], N3 = []\<rparr>\<rparr>"
  using assms
  by (auto simp add: fetch_coinglass_clusters_def heatmap_data_def CoinglassLevels_default_def)

theorem heatmap_failure_empty_witness:
  "serve_500 (heatmap_url ''BTC/USDT'') = Response 500 None
   \<and> (\<exists>r. fetch_coinglass_clusters no_float serve_500 ''BTC/USDT'' = Inr r
         \<and> N3 (heatmap r) = [])"
proof -
  have a: "serve_500 (heatmap_url ''BTC/USDT'') = Response 500 None"
    by (simp add: serve_500_def)
  then have "serve_500 (heatmap_url ''BTC/USDT'') = Raised
         \<or> (\<exists>status_code body. serve_500 (heatmap_url ''BTC/USDT'') = Response status_code body
                \<and> status_code \<noteq> 200)
         \<or> serve_500 (heatmap_url ''BTC/USDT'') = Response 200 None"
    by simp
  from heatmap_failure_empty [where client_get = serve_500 and symbol = "''BTC/USDT''"
        and float_str = no_float, OF this] a
  show ?thesis by simp
qed

text \<open>Claim C7, as amended. When the service answers 200 with more than three
  entries, all valid and with prices and sizes within the float range, the fetcher
  returns exactly three clusters: those of the first three entries, in input order.\<close>

theorem first_three_convertible_entries:
  assumes "client_get (heatmap_url symbol) = Response 200 (Some (JObj body))"
    and "map_of body ''data'' = Some (JArr entries)"
    and "3 < length entries" and "\<forall>e\<in>set entries. convertible_entry e"
  shows "\<exists>r. fetch_coinglass_clusters float_str client_get symbol = Inr r
           \<and> N3 (heatmap r) = map cluster_of_valid_entry (take 3 entries)
           \<and> length (N3 (heatmap r)) = 3"
proof -
  have v: "\<forall>e\<in>set (take 3 entries). convertible_entry e"
    using assms(4) by (meson in_set_takeD)
  then have "filter (\<lambda>e. \<not> skipped float_str e) (take 3 entries) = take 3 entries"
    by (simp add: convertible_not_skipped)
  moreover have "map (entry_cluster float_str) (take 3 entries)
                 = map cluster_of_valid_entry (take 3 entries)"
    using v by (simp add: convertible_not_skipped)
  ultimately show ?thesis
    using fetch_list [where client_get = client_get and symbol = symbol and fs = float_str,
        OF assms(1,2)] assms(3) by simp
qed

lemma five_convertible: "list_all convertible_entry five_entries"
  by (simp add: five_entries_def small_int_float small_float_below zero_one_float)

theorem first_three_convertible_entries_witness:
  "list_all convertible_entry five_entries \<and> length five_entries = 5
   \<and> (\<exists>r. fetch_coinglass_clusters no_float (serve five_entries) ''BTC/USDT'' = Inr r
         \<and> N3 (heatmap r) = [\<lparr>side = ''short'', price = Fin 101, size_usd = Fin 1\<rparr>,
                              \<lparr>side = ''long'', price = Fin 102, size_usd = Fin 2\<rparr>,
                              \<lparr>side = ''short'', price = Fin 103, size_usd = Fin 3\<rparr>])"
proof -
  have c: "3 < length five_entries" by (simp add: five_entries_def)
  have d: "\<forall>e\<in>set five_entries. convertible_entry e"
    using five_convertible by (simp add: list_all_iff)
  have e: "map cluster_of_valid_entry (take 3 five_entries)
           = [\<lparr>side = ''short'', price = Fin 101, size_usd = Fin 1\<rparr>,
              \<lparr>side = ''long'', price = Fin 102, size_usd = Fin 2\<rparr>,
              \<lparr>side = ''short'', price = Fin 103, size_usd = Fin 3\<rparr>]"
    by (simp add: five_entries_def small_int_float small_float_below zero_one_float)
  have f: "length five_entries = 5" by (simp add: five_entries_def)
  show ?thesis
    using first_three_convertible_entries [where client_get = "serve five_entries"
        and symbol = "''BTC/USDT''" and float_str = no_float, OF served c d] five_convertible e f
    by auto
qed

text \<open>Claim C7 as stated fails: of five valid entries, the first with the integer
  price \<open>10 ^ 400\<close>, only the second and the third become clusters; \<^verbatim>\<open>float\<close> raises
  \<^verbatim>\<open>OverflowError\<close> on the first, which is passed over.\<close>

theorem valid_entry_out_of_range:
  "list_all valid_entry big_five_entries \<and> length big_five_entries = 5
   \<and> (\<exists>r. fetch_coinglass_clusters no_float (serve big_five_entries) ''BTC/USDT'' = Inr r
         \<and> N3 (heatmap r) = [\<lparr>side = ''long'', price = Fin 102, size_usd = Fin 2\<rparr>,
                              \<lparr>side = ''short'', price = Fin 103, size_usd = Fin 3\<rparr>]
         \<and> length (N3 (heatmap r)) = 2)"
proof -
  have "fetch_coinglass_clusters no_float (serve big_five_entries) ''BTC/USDT''
     = Inr \<lparr>heatmap = \<lparr>N1 = [], N2 = [],
              N3 = map (entry_cluster no_float) (filter (\<lambda>e. \<not> skipped no_float e)
                     (take 3 big_five_entries))\<rparr>,
            liquidations = \<lparr>N1 = [], N2 = [], N3 = []\<rparr>\<rparr>"
    by (rule fetch_list [where client_get = "serve big_five_entries"
        and symbol = "''BTC/USDT''" and fs = no_float, OF served])
  moreover have "map (entry_cluster no_float) (filter (\<lambda>e. \<not> skipped no_float e)
                     (take 3 big_five_entries))
      = [\<lparr>side = ''long'', price = Fin 102, size_usd = Fin 2\<rparr>,
         \<lparr>side = ''short'', price = Fin 103, size_usd = Fin 3\<rparr>]"
    using big_int_overflows
    by (simp add: big_five_entries_def dict_get_def small_int_float small_float_below zero_one_float)
  moreover have "list_all valid_entry big_five_entries" "length big_five_entries = 5"
    by (simp_all add: big_five_entries_def)
  ultimately show ?thesis by simp
qed

subsection \<open>Claims about the session classifier\<close>

text \<open>Claim C8. For every hour, in particular for every hour from 0 to 23, the session
  is \<open>NY\<close> exactly when \<open>12 \<le> h < 20\<close>, \<open>LDN\<close> exactly when \<open>7 \<le> h < 12\<close>, and
  \<open>ASIA\<close> exactly otherwise; hour 12 gives \<open>NY\<close>, hour 7 \<open>LDN\<close>, hours 6 and 20
  \<open>ASIA\<close>.\<close>

theorem session_boundaries:
  "(detect_session h = ''NY'' \<longleftrightarrow> 12 \<le> h \<and> h < 20)
   \<and> (detect_session h = ''LDN'' \<longleftrightarrow> 7 \<le> h \<and> h < 12)
   \<and> (detect_session h = ''ASIA'' \<longleftrightarrow> h < 7 \<or> 20 \<le> h)
   \<and> detect_session 12 = ''NY'' \<and> detect_session 7 = ''LDN''
   \<and> detect_session 6 = ''ASIA'' \<and> detect_session 20 = ''ASIA''"
  by (auto simp add: detect_session_def)

end
